theory Spec2Isabelle
  imports Complex_Main "HOL-Library.Log_Nat" "HOL-Library.Multiset"
begin

section \<open>The number type of the source: C++ \<open>double\<close>\<close>

text \<open>
  \<^verbatim>\<open>corridor_risk.hpp\<close> computes with \<^verbatim>\<open>double\<close>. The model takes it to be IEEE 754
  binary64 with the default rounding (to nearest, ties to even) and every product and
  every sum rounded on its own. A value is a NaN (one NaN: payloads and signalling play no
  part in \<^verbatim>\<open><\<close>, \<^verbatim>\<open>>\<close>, \<^verbatim>\<open>+\<close>, \<^verbatim>\<open>*\<close>), an infinity \<open>Inf s\<close>, or a finite number
  \<open>Fin s m e\<close> that stands for \<open>(-1)^s * m * 2^e\<close>; the flag \<open>s\<close> is the sign bit
  (\<open>True\<close> for negative).

  The binary64 numbers are the values that satisfy \<open>is_double\<close>: a significand below
  \<open>2^53\<close>, an exponent between \<open>-1074\<close> and \<open>971\<close>, and the significand at least
  \<open>2^52\<close> unless the exponent is the least one (subnormal numbers and the zeros).
\<close>

datatype double = NaN | Inf bool | Fin bool nat int

fun is_double :: "double \<Rightarrow> bool" where
  "is_double (Fin s m e) =
     (m < 2 ^ 53 \<and> - 1074 \<le> e \<and> e \<le> 971 \<and> (2 ^ 52 \<le> m \<or> e = - 1074))"
| "is_double _ = True"

fun is_finite :: "double \<Rightarrow> bool" where
  "is_finite (Fin s m e) = True"
| "is_finite _ = False"

definition smant :: "bool \<Rightarrow> nat \<Rightarrow> int" where
  "smant s m = (if s then - int m else int m)"

text \<open>\<open>scaled k e e0\<close> is the integer \<open>k * 2^(e - e0)\<close>, used with \<open>e0 \<le> e\<close>.\<close>

definition scaled :: "int \<Rightarrow> int \<Rightarrow> int \<Rightarrow> int" where
  "scaled k e e0 = k * 2 ^ nat (e - e0)"

text \<open>
  The comparisons \<^verbatim>\<open><\<close> and \<^verbatim>\<open><=\<close> of the language. They compare values (so the two
  zeros are equal) and are false as soon as one side is a NaN.
\<close>

fun flt :: "double \<Rightarrow> double \<Rightarrow> bool" where
  "flt NaN y = False"
| "flt x NaN = False"
| "flt (Inf s) (Inf t) = (s \<and> \<not> t)"
| "flt (Inf s) (Fin t n f) = s"
| "flt (Fin s m e) (Inf t) = (\<not> t)"
| "flt (Fin s m e) (Fin t n f) =
     (scaled (smant s m) e (min e f) < scaled (smant t n) f (min e f))"

fun fle :: "double \<Rightarrow> double \<Rightarrow> bool" where
  "fle NaN y = False"
| "fle x NaN = False"
| "fle (Inf s) (Inf t) = (s \<or> \<not> t)"
| "fle (Inf s) (Fin t n f) = s"
| "fle (Fin s m e) (Inf t) = (\<not> t)"
| "fle (Fin s m e) (Fin t n f) =
     (scaled (smant s m) e (min e f) \<le> scaled (smant t n) f (min e f))"

definition fgt :: "double \<Rightarrow> double \<Rightarrow> bool" where
  "fgt x y = flt y x"

definition feq :: "double \<Rightarrow> double \<Rightarrow> bool" where
  "feq x y = (fle x y \<and> fle y x)"

text \<open>
  Rounding to nearest, ties to even, of the exact number \<open>(-1)^s * M * 2^E\<close>. The
  significand is cut to 53 bits (fewer at the least exponent), the cut-off part decides
  the direction, and a result beyond the largest exponent is an infinity.
\<close>

definition round_nearest_even :: "bool \<Rightarrow> nat \<Rightarrow> int \<Rightarrow> double" where
  "round_nearest_even s M E =
     (if M = 0 then Fin s 0 (- 1074)
      else
        let e' = max (E + bitlen (int M) - 53) (- 1074) in
        if e' \<le> E then
          (if 971 < e' then Inf s else Fin s (M * 2 ^ nat (E - e')) e')
        else
          let sh = nat (e' - E);
              q = M div 2 ^ sh;
              rest = M mod 2 ^ sh;
              half = 2 ^ (sh - 1);
              m = (if half < rest \<or> (rest = half \<and> odd q) then q + 1 else q);
              m' = (if m = 2 ^ 53 then 2 ^ 52 else m);
              e'' = (if m = 2 ^ 53 then e' + 1 else e')
          in if 971 < e'' then Inf s else Fin s m' e'')"

text \<open>
  The product: NaN for a NaN operand and for zero times infinity, an infinity for an
  infinite operand otherwise, and else the rounded exact product; the sign is the
  exclusive or of the signs.
\<close>

fun fmul :: "double \<Rightarrow> double \<Rightarrow> double" where
  "fmul NaN y = NaN"
| "fmul x NaN = NaN"
| "fmul (Inf s) (Inf t) = Inf (s \<noteq> t)"
| "fmul (Inf s) (Fin t n f) = (if n = 0 then NaN else Inf (s \<noteq> t))"
| "fmul (Fin s m e) (Inf t) = (if m = 0 then NaN else Inf (s \<noteq> t))"
| "fmul (Fin s m e) (Fin t n f) = round_nearest_even (s \<noteq> t) (m * n) (e + f)"

text \<open>
  The sum: NaN for a NaN operand and for infinities of opposite sign; an exact sum of
  zero is \<open>+0\<close> unless both operands are negative (then both are \<open>-0\<close>); else the rounded
  exact sum.
\<close>

fun fadd :: "double \<Rightarrow> double \<Rightarrow> double" where
  "fadd NaN y = NaN"
| "fadd x NaN = NaN"
| "fadd (Inf s) (Inf t) = (if s = t then Inf s else NaN)"
| "fadd (Inf s) (Fin t n f) = Inf s"
| "fadd (Fin s m e) (Inf t) = Inf t"
| "fadd (Fin s m e) (Fin t n f) =
     (let k = scaled (smant s m) e (min e f) + scaled (smant t n) f (min e f)
      in if k = 0 then Fin (s \<and> t) 0 (- 1074)
         else round_nearest_even (k < 0) (nat \<bar>k\<bar>) (min e f))"

text \<open>
  The literals of the source: \<^verbatim>\<open>0.0\<close>, \<^verbatim>\<open>1.0\<close> and \<^verbatim>\<open>1e-9\<close>, the last as the binary64
  number nearest to \<open>10^-9\<close>.
\<close>

definition zero :: double where
  "zero = Fin False 0 (- 1074)"

definition one :: double where
  "one = Fin False 4503599627370496 (- 52)"

definition eps :: double where
  "eps = Fin False 4835703278458517 (- 82)"

section \<open>The data of the source\<close>

text \<open>
  \<^verbatim>\<open>struct RiskCoord { double r; double w; };\<close> and
  \<^verbatim>\<open>struct RiskState { std::vector<RiskCoord> coords; double V; };\<close>
\<close>

record RiskCoord =
  r :: double
  w :: double

record RiskState =
  coords :: "RiskCoord list"
  V :: double

text \<open>
  Every \<^verbatim>\<open>throw std::runtime_error(...)\<close> of the source is one error value, named as the
  specification names it:
  \<^item> \<open>EmptyCorridorError\<close>: "No risk coordinates (no corridor -> no deployment)";
  \<^item> \<open>RiskValueOutOfRangeError\<close>: "r out of [0,1]";
  \<^item> \<open>NegativeWeightError\<close>: "negative weight";
  \<^item> \<open>ResidualIncreasedError\<close>: "Lyapunov residual increased (auto-derate/stop)".
\<close>

datatype error =
  EmptyCorridorError
| RiskValueOutOfRangeError
| NegativeWeightError
| ResidualIncreasedError

fun what :: "error \<Rightarrow> string" where
  "what EmptyCorridorError = ''No risk coordinates (no corridor -> no deployment)''"
| "what RiskValueOutOfRangeError = ''r out of [0,1]''"
| "what NegativeWeightError = ''negative weight''"
| "what ResidualIncreasedError = ''Lyapunov residual increased (auto-derate/stop)''"

section \<open>\<open>RiskState::from_raw\<close>\<close>

text \<open>
  The \<^verbatim>\<open>for\<close> loop of \<^verbatim>\<open>from_raw\<close> over \<^verbatim>\<open>s.coords\<close>: the first argument is the local
  \<^verbatim>\<open>s\<close>, the second the coordinates still to visit. Each coordinate is checked (\<open>r\<close>
  first, then \<open>w\<close>) and then added to \<^verbatim>\<open>s.V\<close>, before the next one is looked at.
\<close>

fun from_raw_loop :: "RiskState \<Rightarrow> RiskCoord list \<Rightarrow> error + RiskState" where
  "from_raw_loop s [] = Inr s"
| "from_raw_loop s (c # cs) =
     (if flt (r c) zero \<or> fgt (r c) one then Inl RiskValueOutOfRangeError
      else if flt (w c) zero then Inl NegativeWeightError
      else from_raw_loop (s\<lparr>V := fadd (V s) (fmul (r c) (w c))\<rparr>) cs)"

definition from_raw :: "RiskCoord list \<Rightarrow> error + RiskState" where
  "from_raw rc =
     (if rc = [] then Inl EmptyCorridorError
      else from_raw_loop \<lparr>coords = rc, V = zero\<rparr> rc)"

section \<open>\<open>RiskState::next\<close>\<close>

text \<open>
  \<^verbatim>\<open>RiskState next(const std::vector<RiskCoord>& rc_next) const\<close>, with the receiver as
  the first argument. An exception of \<^verbatim>\<open>from_raw\<close> passes through.
\<close>

definition next_state :: "RiskState \<Rightarrow> RiskCoord list \<Rightarrow> error + RiskState" where
  "next_state this rc_next =
     (case from_raw rc_next of
        Inl e \<Rightarrow> Inl e
      | Inr n \<Rightarrow>
          if fgt (V n) (fadd (V this) eps) then Inl ResidualIncreasedError
          else Inr n)"

section \<open>The two functions on a store of objects\<close>

text \<open>
  The same two functions with their objects in a store, to follow what each assignment
  writes. The store is the stack of the \<^verbatim>\<open>RiskState\<close> objects alive, an address is a
  position in it, and a new local is put on top. \<^verbatim>\<open>from_raw\<close> is \<^verbatim>\<open>static\<close>: after the
  emptiness test it creates its local \<^verbatim>\<open>s\<close> (with \<^verbatim>\<open>s.coords = rc; s.V = 0.0;\<close>), the
  loop reads \<^verbatim>\<open>s.coords\<close> and assigns to \<^verbatim>\<open>s.V\<close> at the address \<open>ls\<close> of \<^verbatim>\<open>s\<close>, and \<^verbatim>\<open>s\<close>
  is destroyed when the function returns it by value or throws. \<^verbatim>\<open>next\<close> reads the receiver
  at the address \<open>this\<close> (an address of the store it is called on), keeps the candidate in
  its local \<^verbatim>\<open>n\<close> and destroys it on return or throw. Each function returns the store it
  leaves behind, with its result or its exception.
\<close>

type_synonym store = "RiskState list"

fun from_raw_loop_st :: "store \<Rightarrow> nat \<Rightarrow> RiskCoord list \<Rightarrow> store \<times> error option" where
  "from_raw_loop_st st ls [] = (st, None)"
| "from_raw_loop_st st ls (c # cs) =
     (if flt (r c) zero \<or> fgt (r c) one then (st, Some RiskValueOutOfRangeError)
      else if flt (w c) zero then (st, Some NegativeWeightError)
      else from_raw_loop_st
             (st[ls := (st ! ls)\<lparr>V := fadd (V (st ! ls)) (fmul (r c) (w c))\<rparr>]) ls cs)"

definition from_raw_st :: "store \<Rightarrow> RiskCoord list \<Rightarrow> store \<times> (error + RiskState)" where
  "from_raw_st st rc =
     (if rc = [] then (st, Inl EmptyCorridorError)
      else
        let ls = length st;
            st1 = st @ [\<lparr>coords = rc, V = zero\<rparr>]
        in case from_raw_loop_st st1 ls (coords (st1 ! ls)) of
             (st2, Some e) \<Rightarrow> (take ls st2, Inl e)
           | (st2, None) \<Rightarrow> (take ls st2, Inr (st2 ! ls)))"

definition next_st :: "store \<Rightarrow> nat \<Rightarrow> RiskCoord list \<Rightarrow> store \<times> (error + RiskState)" where
  "next_st st this rc_next =
     (case from_raw_st st rc_next of
        (st1, Inl e) \<Rightarrow> (st1, Inl e)
      | (st1, Inr v) \<Rightarrow>
          let ln = length st1;
              st2 = st1 @ [v]
          in if fgt (V (st2 ! ln)) (fadd (V (st2 ! this)) eps)
             then (take ln st2, Inl ResidualIncreasedError)
             else (take ln st2, Inr (st2 ! ln)))"

section \<open>The vocabulary of the specification\<close>

text \<open>
  A coordinate is valid when \<open>r\<close> lies in \<open>[0,1]\<close> and \<open>w\<close> is at least \<open>0\<close>; both are
  comparisons of \<^verbatim>\<open>double\<close>s, so a NaN lies in no interval.
\<close>

definition valid_coord :: "RiskCoord \<Rightarrow> bool" where
  "valid_coord c = (fle zero (r c) \<and> fle (r c) one \<and> fle zero (w c))"

text \<open>
  What the two checks of the loop test: \<^verbatim>\<open>c.r < 0.0 || c.r > 1.0\<close> and \<^verbatim>\<open>c.w < 0.0\<close>.
\<close>

definition r_out_of_range :: "RiskCoord \<Rightarrow> bool" where
  "r_out_of_range c = (flt (r c) zero \<or> fgt (r c) one)"

definition w_negative :: "RiskCoord \<Rightarrow> bool" where
  "w_negative c = flt (w c) zero"

definition rejected :: "RiskCoord \<Rightarrow> bool" where
  "rejected c = (r_out_of_range c \<or> w_negative c)"

text \<open>
  The residual as the loop computes it, written as one fold: the products are added in
  the arithmetic of \<^verbatim>\<open>double\<close>, in the order of the sequence, starting from \<^verbatim>\<open>0.0\<close>.
\<close>

definition weighted_sum :: "RiskCoord list \<Rightarrow> double" where
  "weighted_sum rc = foldl (\<lambda>v c. fadd v (fmul (r c) (w c))) zero rc"

text \<open>
  Iterating the transition along a chain of coordinate sequences: each accepted candidate
  becomes the current state of the next step, and the first failure ends the run.
\<close>

fun run_chain :: "RiskState \<Rightarrow> RiskCoord list list \<Rightarrow> error + RiskState" where
  "run_chain cur [] = Inr cur"
| "run_chain cur (rc # rcs) =
     (case next_state cur rc of
        Inl e \<Rightarrow> Inl e
      | Inr n \<Rightarrow> run_chain n rcs)"

text \<open>
  A chain of valid coordinate sequences whose residuals do not increase beyond the
  tolerance: each residual is at most the one before it plus \<^verbatim>\<open>1e-9\<close>; the first
  argument is the residual of the state the chain starts from.
\<close>

fun non_increasing :: "double \<Rightarrow> RiskCoord list list \<Rightarrow> bool" where
  "non_increasing v [] = True"
| "non_increasing v (rc # rcs) =
     (rc \<noteq> [] \<and> list_all valid_coord rc \<and>
      fle (weighted_sum rc) (fadd v eps) \<and> non_increasing (weighted_sum rc) rcs)"

text \<open>
  The states the public operations can produce: those built by \<open>from_raw\<close>, and those a
  successful \<open>next\<close> returns from a state already produced.
\<close>

inductive reachable :: "RiskState \<Rightarrow> bool" where
  constructed: "from_raw rc = Inr s \<Longrightarrow> reachable s"
| transitioned: "reachable cur \<Longrightarrow> next_state cur rc = Inr s \<Longrightarrow> reachable s"

text \<open>A coordinate of two finite numbers: neither \<open>r\<close> nor \<open>w\<close> is a NaN or an infinity.\<close>

definition finite_coord :: "RiskCoord \<Rightarrow> bool" where
  "finite_coord c = (is_finite (r c) \<and> is_finite (w c))"

text \<open>
  The boundary test of the specification adds \<^verbatim>\<open>1e-8\<close> to a residual: the binary64 number
  nearest to \<open>10^-8\<close>. \<open>two_pow_24\<close> and \<open>two_pow_27\<close> are \<open>2^24 = 16777216.0\<close> and
  \<open>2^27 = 134217728.0\<close>.
\<close>

definition one_e_minus_8 :: double where
  "one_e_minus_8 = Fin False 6044629098073146 (- 79)"

definition two_pow_24 :: double where
  "two_pow_24 = Fin False 4503599627370496 (- 28)"

definition two_pow_27 :: double where
  "two_pow_27 = Fin False 4503599627370496 (- 25)"

text \<open>
  A number is on the grid of \<open>2^G\<close> when it is a non-negative finite multiple of \<open>2^G\<close>;
  \<open>units G x\<close> is then the multiple.
\<close>

fun on_grid :: "int \<Rightarrow> double \<Rightarrow> bool" where
  "on_grid G (Fin s m e) = ((\<not> s \<or> m = 0) \<and> (G \<le> e \<or> m mod 2 ^ nat (G - e) = 0))"
| "on_grid G x = False"

fun units :: "int \<Rightarrow> double \<Rightarrow> nat" where
  "units G (Fin s m e) = (if G \<le> e then m * 2 ^ nat (e - G) else m div 2 ^ nat (G - e))"
| "units G x = 0"

text \<open>The term \<open>r * w\<close> of one coordinate, as the loop computes it.\<close>

definition product :: "RiskCoord \<Rightarrow> double" where
  "product c = fmul (r c) (w c)"



section \<open>The real number a finite \<open>double\<close> stands for\<close>

definition p2 :: "int \<Rightarrow> real" where
  "p2 e = 2 powi e"

fun valof :: "double \<Rightarrow> real" where
  "valof (Fin s m e) = real_of_int (smant s m) * p2 e"
| "valof x = 0"

text \<open>\<open>exactly G U x\<close>: the number \<open>x\<close> is finite and its value is \<open>U * 2^G\<close>.\<close>

definition exactly :: "int \<Rightarrow> nat \<Rightarrow> double \<Rightarrow> bool" where
  "exactly G U x = (is_finite x \<and> valof x = real U * p2 G)"


section \<open>Example inputs\<close>

text \<open>The numbers \<^verbatim>\<open>0.5\<close>, \<^verbatim>\<open>2.0\<close>, \<^verbatim>\<open>1.5\<close>, \<^verbatim>\<open>-1.0\<close> and \<^verbatim>\<open>0.9\<close>.\<close>

definition half :: double where
  "half = Fin False 4503599627370496 (- 53)"

definition two :: double where
  "two = Fin False 4503599627370496 (- 51)"

definition one_and_half :: double where
  "one_and_half = Fin False 6755399441055744 (- 52)"

definition minus_one :: double where
  "minus_one = Fin True 4503599627370496 (- 52)"

definition nine_tenths :: double where
  "nine_tenths = Fin False 8106479329266893 (- 53)"

text \<open>The numbers \<open>2^53\<close>, \<open>2^53 + 2\<close> and \<^verbatim>\<open>1.0 + 1e-9\<close>.\<close>

definition two_pow_53 :: double where
  "two_pow_53 = Fin False 4503599627370496 1"

definition two_pow_53_plus_2 :: double where
  "two_pow_53_plus_2 = Fin False 4503599627370497 1"

definition one_plus_eps :: double where
  "one_plus_eps = Fin False 4503599631874096 (- 52)"

text \<open>The numbers \<open>2^26\<close> and \<open>2^26 + 2^-26\<close>, which is \<^verbatim>\<open>67108864.0 + 1e-8\<close>.\<close>

definition two_pow_26 :: double where
  "two_pow_26 = Fin False 4503599627370496 (- 26)"

definition two_pow_26_next :: double where
  "two_pow_26_next = Fin False 4503599627370497 (- 26)"

section \<open>Evaluating the arithmetic on numerals\<close>

lemma bitlen_numeral:
  "bitlen (numeral (Num.Bit0 k)) = bitlen (numeral k) + 1"
  "bitlen (numeral (Num.Bit1 k)) = bitlen (numeral k) + 1"
  "bitlen 1 = 1"
  by (subst compute_bitlen; simp)+

lemmas double_eval =
  zero_def one_def eps_def half_def two_def nine_tenths_def
  smant_def scaled_def fgt_def round_nearest_even_def bitlen_numeral Let_def

lemmas coord_eval =
  valid_coord_def rejected_def r_out_of_range_def w_negative_def

lemma from_raw_half_two:
  "from_raw [\<lparr>r = half, w = two\<rparr>] = Inr \<lparr>coords = [\<lparr>r = half, w = two\<rparr>], V = one\<rparr>"
  by (simp add: from_raw_def double_eval)

lemma from_raw_half_one:
  "from_raw [\<lparr>r = half, w = one\<rparr>] = Inr \<lparr>coords = [\<lparr>r = half, w = one\<rparr>], V = half\<rparr>"
  by (simp add: from_raw_def double_eval)

lemma from_raw_nine_tenths_two:
  "from_raw [\<lparr>r = nine_tenths, w = two\<rparr>] =
     Inr \<lparr>coords = [\<lparr>r = nine_tenths, w = two\<rparr>], V = Fin False 8106479329266893 (- 52)\<rparr>"
  by (simp add: from_raw_def double_eval)

section \<open>Comparisons\<close>

lemma fle_not_flt: "fle x y \<Longrightarrow> \<not> flt y x"
  by (cases x; cases y) (auto simp: min.commute)

lemma fle_not_fgt: "fle x y \<Longrightarrow> \<not> fgt x y"
  by (simp add: fgt_def fle_not_flt)

lemma flt_irrefl: "\<not> flt x x"
  by (cases x) auto

section \<open>Signs\<close>

lemma fle_zero_Fin: "fle zero (Fin s m e) \<longleftrightarrow> \<not> s \<or> m = 0"
  by (simp add: zero_def smant_def scaled_def zero_le_mult_iff)

lemma flt_Fin_zero: "flt (Fin s m e) zero \<longleftrightarrow> s \<and> m \<noteq> 0"
  by (simp add: zero_def smant_def scaled_def mult_less_0_iff)

lemma fle_zero_round: "fle zero (round_nearest_even False M E)"
  by (simp add: round_nearest_even_def Let_def fle_zero_Fin) (simp add: zero_def)

lemma fle_zero_fmul:
  assumes "is_finite x" and "is_finite y" and "\<not> flt x zero" and "\<not> flt y zero"
  shows "fle zero (fmul x y)"
proof -
  from assms(1) obtain s m e where x: "x = Fin s m e"
    by (cases x) auto
  from assms(2) obtain t n f where y: "y = Fin t n f"
    by (cases y) auto
  from assms(3) x have sm: "\<not> s \<or> m = 0"
    by (simp add: flt_Fin_zero)
  from assms(4) y have tn: "\<not> t \<or> n = 0"
    by (simp add: flt_Fin_zero)
  show ?thesis
  proof (cases "m * n = 0")
    case True
    then show ?thesis
      by (simp add: x y round_nearest_even_def fle_zero_Fin)
  next
    case False
    with sm tn have "\<not> s" and "\<not> t"
      by auto
    then show ?thesis
      by (simp add: x y fle_zero_round)
  qed
qed

lemma scaled_nonneg: "0 \<le> scaled k e e0 \<longleftrightarrow> 0 \<le> k"
  by (simp add: scaled_def zero_le_mult_iff)

lemma smant_nonneg: "0 \<le> smant s m \<longleftrightarrow> \<not> s \<or> m = 0"
  by (simp add: smant_def)

lemma fle_zero_Inf: "fle zero (Inf s) \<longleftrightarrow> \<not> s"
  by (simp add: zero_def)

lemma fle_zero_NaN: "\<not> fle zero NaN"
  by (simp add: zero_def)

lemma fle_zero_fadd:
  assumes "fle zero x" and "fle zero y"
  shows "fle zero (fadd x y)"
proof (cases x)
  case NaN
  with assms(1) show ?thesis
    by (simp add: fle_zero_NaN)
next
  case (Inf s)
  with assms show ?thesis
    by (cases y) (auto simp: fle_zero_Inf fle_zero_NaN)
next
  case x: (Fin s m e)
  show ?thesis
  proof (cases y)
    case NaN
    with assms(2) show ?thesis
      by (simp add: fle_zero_NaN)
  next
    case (Inf t)
    with assms x show ?thesis
      by (simp add: fle_zero_Inf)
  next
    case y: (Fin t n f)
    let ?k = "scaled (smant s m) e (min e f) + scaled (smant t n) f (min e f)"
    from assms x y have "0 \<le> ?k"
      by (simp add: scaled_nonneg smant_nonneg fle_zero_Fin)
    then show ?thesis
      by (simp add: x y Let_def fle_zero_Fin fle_zero_round)
  qed
qed

section \<open>Powers of two\<close>

lemma p2_pos: "0 < p2 e"
  by (simp add: p2_def)

lemma p2_add: "p2 (a + b) = p2 a * p2 b"
  by (simp add: p2_def power_int_add)

lemma p2_nat: "p2 (int n) = 2 ^ n"
  by (simp add: p2_def)

lemma p2_diff_nat: "b \<le> a \<Longrightarrow> 2 ^ nat (a - b) * p2 b = p2 a"
proof -
  assume "b \<le> a"
  then have "p2 (int (nat (a - b))) * p2 b = p2 a"
    by (simp add: p2_add [symmetric])
  then show ?thesis
    by (simp only: p2_nat)
qed

lemma p2_mono: "a \<le> b \<Longrightarrow> p2 a \<le> p2 b"
  by (simp add: p2_def power_int_increasing)

lemma p2_strict_mono: "a < b \<Longrightarrow> p2 a < p2 b"
  by (simp add: p2_def power_int_strict_increasing)

lemma p2_Suc: "p2 (a + 1) = 2 * p2 a"
  unfolding p2_def by (simp add: power_int_add)

lemma p2_numeral: "p2 (numeral n) = 2 ^ numeral n"
  by (simp add: p2_def)

lemma p2_le_cancel: "real a * p2 e \<le> real b * p2 e \<longleftrightarrow> a \<le> b"
  by (simp add: p2_pos)

lemma p2_less_cancel: "real a * p2 e < real b * p2 e \<longleftrightarrow> a < b"
  by (simp add: p2_pos)

lemma bitlen_real_bounds:
  assumes "0 < M"
  shows "p2 (bitlen (int M) - 1) \<le> real M" and "real M < p2 (bitlen (int M))"
    and "1 \<le> bitlen (int M)"
proof -
  let ?k = "bitlen (int M)"
  from assms have pos: "0 < int M" by simp
  from bitlen_bounds [OF pos]
  have lo: "2 ^ nat (?k - 1) \<le> int M" and hi: "int M < 2 ^ nat ?k"
    by simp_all
  show k1: "1 \<le> ?k"
    using pos by (simp add: bitlen_alt_def)
  have "p2 (?k - 1) = 2 ^ nat (?k - 1)"
    using k1 p2_nat [of "nat (?k - 1)"] by simp
  also have "\<dots> \<le> real M"
    using lo by (metis of_int_le_iff of_int_numeral of_int_of_nat_eq of_int_power)
  finally show "p2 (?k - 1) \<le> real M" .
  have "real M < 2 ^ nat ?k"
    using hi by (metis of_int_less_iff of_int_numeral of_int_of_nat_eq of_int_power)
  also have "\<dots> = p2 ?k"
    using k1 p2_nat [of "nat ?k"] by simp
  finally show "real M < p2 ?k" .
qed


section \<open>Rounding to nearest\<close>

lemma round_exact_case:
  assumes M: "0 < M" and e0: "e0 = max (E + bitlen (int M) - 53) (- 1074)" and le: "e0 \<le> E"
    and m: "m = M * 2 ^ nat (E - e0)"
  shows "round_nearest_even s M E = (if 971 < e0 then Inf s else Fin s m e0)"
    and "real m * p2 e0 = real M * p2 E"
    and "m < 2 ^ 53"
    and "2 ^ 52 \<le> m \<or> e0 = - 1074"
proof -
  let ?k = "bitlen (int M)"
  note kb = bitlen_real_bounds [OF M]
  show "round_nearest_even s M E = (if 971 < e0 then Inf s else Fin s m e0)"
    using M le by (simp add: round_nearest_even_def Let_def e0 [symmetric] m)
  have "real m * p2 e0 = real M * (2 ^ nat (E - e0) * p2 e0)"
    by (simp add: m)
  then show val: "real m * p2 e0 = real M * p2 E"
    using le by (simp add: p2_diff_nat)
  have "real M * p2 E < p2 ?k * p2 E"
    using kb(2) by (simp add: p2_pos)
  also have "\<dots> = p2 (?k + E)"
    by (simp add: p2_add)
  also have "\<dots> \<le> p2 (53 + e0)"
    by (rule p2_mono) (simp add: e0)
  also have "\<dots> = real (2 ^ 53) * p2 e0"
    by (simp add: p2_add p2_numeral)
  finally have "real m * p2 e0 < real (2 ^ 53) * p2 e0"
    by (simp only: val)
  then show "m < 2 ^ 53"
    by (simp only: p2_less_cancel)
  show "2 ^ 52 \<le> m \<or> e0 = - 1074"
  proof (cases "e0 = - 1074")
    case True
    then show ?thesis by simp
  next
    case False
    with e0 have eq: "e0 = E + ?k - 53"
      by (simp add: max_def split: if_splits)
    have "52 + e0 = (?k - 1) + E"
      using eq by simp
    then have sp: "p2 (52 + e0) = p2 (?k - 1) * p2 E"
      by (simp only: p2_add)
    have "real (2 ^ 52) * p2 e0 = p2 (52 + e0)"
      by (simp add: p2_add p2_numeral)
    also have "\<dots> = p2 (?k - 1) * p2 E"
      by (rule sp)
    also have "\<dots> \<le> real M * p2 E"
      using kb(1) by (simp add: p2_pos)
    finally have "real (2 ^ 52) * p2 e0 \<le> real m * p2 e0"
      by (simp only: val)
    then have "2 ^ 52 \<le> m"
      by (simp only: p2_le_cancel)
    then show ?thesis by simp
  qed
qed


lemma round_inexact_case:
  assumes M: "0 < M" and e0: "e0 = max (E + bitlen (int M) - 53) (- 1074)" and gt: "E < e0"
    and sh: "sh = nat (e0 - E)" and q: "q = M div 2 ^ sh" and rest: "rest = M mod 2 ^ sh"
    and mr: "mr = (if 2 ^ (sh - 1) < rest \<or> (rest = 2 ^ (sh - 1) \<and> odd q) then q + 1 else q)"
    and m': "m' = (if mr = 2 ^ 53 then 2 ^ 52 else mr)"
    and e'': "e'' = (if mr = 2 ^ 53 then e0 + 1 else e0)"
  shows "round_nearest_even s M E = (if 971 < e'' then Inf s else Fin s m' e'')"
    and "real m' * p2 e'' = real mr * p2 e0"
    and "m' < 2 ^ 53"
    and "2 ^ 52 \<le> m' \<or> e'' = - 1074"
    and "real q * p2 e0 \<le> real M * p2 E"
    and "real M * p2 E < real (q + 1) * p2 e0"
    and "mr = q \<or> mr = q + 1"
    and "real M * p2 E = real q * p2 e0 \<Longrightarrow> mr = q"
    and "e0 \<noteq> - 1074 \<Longrightarrow> 2 ^ 52 \<le> q"
proof -
  let ?k = "bitlen (int M)"
  note kb = bitlen_real_bounds [OF M]
  have ne: "\<not> max (E + ?k - 53) (- 1074) \<le> E"
    using gt by (simp only: e0 not_le)
  have nz: "M \<noteq> 0"
    using M by simp
  show "round_nearest_even s M E = (if 971 < e'' then Inf s else Fin s m' e'')"
    unfolding round_nearest_even_def Let_def m' e'' mr q rest sh e0
    by (simp only: nz ne if_False)
  show val: "real m' * p2 e'' = real mr * p2 e0"
    by (simp add: m' e'' p2_Suc)
  have split: "M = q * 2 ^ sh + rest"
    unfolding q rest by (rule div_mult_mod_eq [symmetric])
  have rest_lt: "rest < 2 ^ sh"
    by (simp add: rest)
  have scale: "2 ^ sh * p2 E = p2 e0"
    using gt p2_diff_nat [of E e0] by (simp add: sh)
  have x: "real M * p2 E = real q * p2 e0 + real rest * p2 E"
  proof -
    have "real M * p2 E = real q * (2 ^ sh * p2 E) + real rest * p2 E"
      by (subst split) (simp add: algebra_simps)
    then show ?thesis
      by (simp only: scale)
  qed
  show xlo: "real q * p2 e0 \<le> real M * p2 E"
    using p2_pos [of E] by (simp add: x)
  have "real rest * p2 E < 2 ^ sh * p2 E"
    using rest_lt p2_pos [of E]
    by (metis of_nat_less_iff of_nat_numeral of_nat_power mult_less_cancel_right_pos)
  then have "real rest * p2 E < p2 e0"
    by (simp only: scale)
  then show xhi: "real M * p2 E < real (q + 1) * p2 e0"
    by (simp add: x algebra_simps)
  show cases: "mr = q \<or> mr = q + 1"
    by (simp add: mr)
  show "mr = q" if "real M * p2 E = real q * p2 e0"
  proof -
    from that x have "real rest * p2 E = 0"
      by simp
    then have "rest = 0"
      using p2_pos [of E] by simp
    then show ?thesis
      by (simp add: mr)
  qed
  have "real q * p2 e0 < p2 ?k * p2 E"
    using xlo kb(2) p2_pos [of E]
    by (meson le_less_trans mult_less_cancel_right_pos)
  also have "\<dots> = p2 (?k + E)"
    by (simp add: p2_add)
  also have "\<dots> \<le> p2 (53 + e0)"
    by (rule p2_mono) (simp add: e0)
  also have "\<dots> = real (2 ^ 53) * p2 e0"
    by (simp add: p2_add p2_numeral)
  finally have qhi: "q < 2 ^ 53"
    by (simp only: p2_less_cancel)
  with cases have "mr \<le> 2 ^ 53"
    by auto
  then show "m' < 2 ^ 53"
    by (simp add: m')
  show qlo: "2 ^ 52 \<le> q" if "e0 \<noteq> - 1074"
  proof -
    from that e0 have eq: "e0 = E + ?k - 53"
      by (simp add: max_def split: if_splits)
    then have "52 + e0 = (?k - 1) + E"
      by simp
    then have sp: "p2 (52 + e0) = p2 (?k - 1) * p2 E"
      by (simp only: p2_add)
    have "real (2 ^ 52) * p2 e0 = p2 (52 + e0)"
      by (simp add: p2_add p2_numeral)
    also have "\<dots> = p2 (?k - 1) * p2 E"
      by (rule sp)
    also have "\<dots> \<le> real M * p2 E"
      using kb(1) by (simp add: p2_pos)
    also have "\<dots> < real (q + 1) * p2 e0"
      by (rule xhi)
    finally have "2 ^ 52 < q + 1"
      by (simp only: p2_less_cancel)
    then show ?thesis
      by simp
  qed
  show "2 ^ 52 \<le> m' \<or> e'' = - 1074"
  proof (cases "e0 = - 1074")
    case True
    then show ?thesis
      by (simp add: m' e'')
  next
    case False
    then have "2 ^ 52 \<le> q"
      by (rule qlo)
    with cases have "2 ^ 52 \<le> mr"
      by auto
    then show ?thesis
      by (simp add: m')
  qed
qed


lemma grid_point:
  assumes "e0 \<le> G"
  shows "real K * p2 G = real (K * 2 ^ nat (G - e0)) * p2 e0"
proof -
  have "real (K * 2 ^ nat (G - e0)) * p2 e0 = real K * (2 ^ nat (G - e0) * p2 e0)"
    by simp
  also have "\<dots> = real K * p2 G"
    using assms by (simp only: p2_diff_nat)
  finally show ?thesis
    by (rule sym)
qed

lemma below_grid:
  assumes "G < e0" and "K \<le> 2 ^ 53" and "2 ^ 52 \<le> q"
  shows "real K * p2 G \<le> real q * p2 e0"
proof -
  have "real K * p2 G \<le> real (2 ^ 53) * p2 G"
    using assms(2) by (simp only: p2_le_cancel)
  also have "\<dots> = real (2 ^ 52) * p2 (G + 1)"
    by (simp add: p2_Suc)
  also have "\<dots> \<le> real (2 ^ 52) * p2 e0"
    using assms(1) p2_mono [of "G + 1" e0] by simp
  also have "\<dots> \<le> real q * p2 e0"
    using assms(3) by (simp only: p2_le_cancel)
  finally show ?thesis .
qed

lemma sandwich_upper:
  assumes xlo: "real q * p2 e0 \<le> x" and cases: "mr = q \<or> mr = q + 1"
    and exact: "x = real q * p2 e0 \<Longrightarrow> mr = q"
    and qlo: "e0 \<noteq> - 1074 \<Longrightarrow> 2 ^ 52 \<le> q"
    and K: "K \<le> 2 ^ 53" and G: "- 1074 \<le> G" and le: "x \<le> real K * p2 G"
  shows "real mr * p2 e0 \<le> real K * p2 G"
proof (cases "e0 \<le> G")
  case True
  let ?KK = "K * 2 ^ nat (G - e0)"
  note g = grid_point [OF True, of K]
  show ?thesis
  proof (cases "mr = q")
    case True
    with xlo le show ?thesis
      by simp
  next
    case False
    with cases have mr: "mr = q + 1"
      by simp
    from False exact have "x \<noteq> real q * p2 e0"
      by blast
    with xlo le have "real q * p2 e0 < real K * p2 G"
      by simp
    then have "real q * p2 e0 < real ?KK * p2 e0"
      by (simp only: g)
    then have "q < ?KK"
      by (simp only: p2_less_cancel)
    then have "q + 1 \<le> ?KK"
      by simp
    then have "real (q + 1) * p2 e0 \<le> real ?KK * p2 e0"
      by (simp only: p2_le_cancel)
    then show ?thesis
      by (simp only: g mr)
  qed
next
  case False
  then have lt: "G < e0"
    by simp
  with G have "e0 \<noteq> - 1074"
    by simp
  then have "2 ^ 52 \<le> q"
    by (rule qlo)
  with lt K have "real K * p2 G \<le> real q * p2 e0"
    by (rule below_grid)
  with xlo le have eq: "x = real q * p2 e0"
    by simp
  then have "mr = q"
    by (rule exact)
  with eq le show ?thesis
    by simp
qed

lemma sandwich_lower:
  assumes xhi: "x < real (q + 1) * p2 e0" and cases: "mr = q \<or> mr = q + 1"
    and qlo: "e0 \<noteq> - 1074 \<Longrightarrow> 2 ^ 52 \<le> q"
    and K: "K \<le> 2 ^ 53" and G: "- 1074 \<le> G" and le: "real K * p2 G \<le> x"
  shows "real K * p2 G \<le> real mr * p2 e0"
proof -
  from cases have "q \<le> mr"
    by auto
  then have qm: "real q * p2 e0 \<le> real mr * p2 e0"
    by (simp only: p2_le_cancel)
  show ?thesis
  proof (cases "e0 \<le> G")
    case True
    let ?KK = "K * 2 ^ nat (G - e0)"
    note g = grid_point [OF True, of K]
    from le xhi have "real K * p2 G < real (q + 1) * p2 e0"
      by simp
    then have "real ?KK * p2 e0 < real (q + 1) * p2 e0"
      by (simp only: g)
    then have "?KK < q + 1"
      by (simp only: p2_less_cancel)
    then have "?KK \<le> q"
      by simp
    then have "real ?KK * p2 e0 \<le> real q * p2 e0"
      by (simp only: p2_le_cancel)
    with qm have "real ?KK * p2 e0 \<le> real mr * p2 e0"
      by simp
    then show ?thesis
      by (simp only: g)
  next
    case False
    then have lt: "G < e0"
      by simp
    with G have "e0 \<noteq> - 1074"
      by simp
    then have "2 ^ 52 \<le> q"
      by (rule qlo)
    with lt K have "real K * p2 G \<le> real q * p2 e0"
      by (rule below_grid)
    with qm show ?thesis
      by simp
  qed
qed

lemma p2_less_iff: "p2 a < p2 b \<longleftrightarrow> a < b"
proof
  assume l: "p2 a < p2 b"
  show "a < b"
  proof (rule ccontr)
    assume "\<not> a < b"
    then have "p2 b \<le> p2 a"
      by (simp add: p2_mono)
    with l show False
      by simp
  qed
next
  assume "a < b"
  then show "p2 a < p2 b"
    by (rule p2_strict_mono)
qed

lemma p2_half: "p2 e = 2 * p2 (e - 1)"
  using p2_Suc [of "e - 1"] by simp

lemma round_inexact_near:
  assumes M: "0 < M" and gt: "E < e0"
    and sh: "sh = nat (e0 - E)" and q: "q = M div 2 ^ sh" and rest: "rest = M mod 2 ^ sh"
    and mr: "mr = (if 2 ^ (sh - 1) < rest \<or> (rest = 2 ^ (sh - 1) \<and> odd q) then q + 1 else q)"
  shows "\<bar>real mr * p2 e0 - real M * p2 E\<bar> \<le> p2 (e0 - 1)"
proof -
  have split: "M = q * 2 ^ sh + rest"
    unfolding q rest by (rule div_mult_mod_eq [symmetric])
  have rest_lt: "rest < 2 ^ sh"
    by (simp add: rest)
  have scale: "2 ^ sh * p2 E = p2 e0"
    using gt p2_diff_nat [of E e0] by (simp add: sh)
  have "nat (e0 - 1 - E) = sh - 1"
    by (simp add: sh)
  with gt p2_diff_nat [of E "e0 - 1"] have hscale: "2 ^ (sh - 1) * p2 E = p2 (e0 - 1)"
    by simp
  have x: "real M * p2 E = real q * p2 e0 + real rest * p2 E"
  proof -
    have "real M * p2 E = real q * (2 ^ sh * p2 E) + real rest * p2 E"
      by (subst split) (simp add: algebra_simps)
    then show ?thesis
      by (simp only: scale)
  qed
  have "real rest * p2 E < 2 ^ sh * p2 E"
    using rest_lt p2_pos [of E]
    by (metis of_nat_less_iff of_nat_numeral of_nat_power mult_less_cancel_right_pos)
  then have r_hi: "real rest * p2 E < p2 e0"
    by (simp only: scale)
  have r_lo: "0 \<le> real rest * p2 E"
    using p2_pos [of E] by simp
  show ?thesis
  proof (cases "2 ^ (sh - 1) < rest \<or> (rest = 2 ^ (sh - 1) \<and> odd q)")
    case True
    then have up: "mr = q + 1"
      by (simp add: mr)
    from True have "2 ^ (sh - 1) \<le> rest"
      by auto
    then have "real (2 ^ (sh - 1)) * p2 E \<le> real rest * p2 E"
      by (simp only: p2_le_cancel)
    then have "p2 (e0 - 1) \<le> real rest * p2 E"
      using hscale by simp
    with r_hi p2_half [of e0] show ?thesis
      by (simp add: up x algebra_simps)
  next
    case False
    then have down: "mr = q"
      by (simp add: mr)
    from False have "rest \<le> 2 ^ (sh - 1)"
      by auto
    then have "real rest * p2 E \<le> real (2 ^ (sh - 1)) * p2 E"
      by (simp only: p2_le_cancel)
    then have "real rest * p2 E \<le> p2 (e0 - 1)"
      using hscale by simp
    with r_lo show ?thesis
      by (simp add: down x)
  qed
qed

lemma round_exponent_le:
  assumes M: "0 < M" and b: "- 1074 \<le> b" and lt: "real M * p2 E < p2 (b + 53)"
  shows "max (E + bitlen (int M) - 53) (- 1074) \<le> b"
proof -
  let ?k = "bitlen (int M)"
  note kb = bitlen_real_bounds [OF M]
  have "p2 (?k - 1 + E) = p2 (?k - 1) * p2 E"
    by (rule p2_add)
  also have "\<dots> \<le> real M * p2 E"
    using kb(1) by (simp add: p2_pos)
  also note lt
  finally have "?k - 1 + E < b + 53"
    by (simp only: p2_less_iff)
  with b show ?thesis
    by simp
qed



lemma round_nearest_even_cases:
  assumes M: "0 < M"
  obtains m e where
    "round_nearest_even s M E = (if 971 < e then Inf s else Fin s m e)"
    and "- 1074 \<le> e" and "m < 2 ^ 53" and "2 ^ 52 \<le> m \<or> e = - 1074"
    and "\<And>K G. K \<le> 2 ^ 53 \<Longrightarrow> - 1074 \<le> G \<Longrightarrow> real M * p2 E \<le> real K * p2 G \<Longrightarrow>
           real m * p2 e \<le> real K * p2 G"
    and "\<And>K G. K \<le> 2 ^ 53 \<Longrightarrow> - 1074 \<le> G \<Longrightarrow> real K * p2 G \<le> real M * p2 E \<Longrightarrow>
           real K * p2 G \<le> real m * p2 e"
    and "\<And>b. - 1074 \<le> b \<Longrightarrow> real M * p2 E < p2 (b + 53) \<Longrightarrow>
           \<bar>real m * p2 e - real M * p2 E\<bar> \<le> p2 (b - 1)"
proof -
  define e0 where "e0 = max (E + bitlen (int M) - 53) (- 1074)"
  have e0_lo: "- 1074 \<le> e0"
    by (simp add: e0_def)
  have e0_le: "e0 \<le> b" if "- 1074 \<le> b" and "real M * p2 E < p2 (b + 53)" for b
    unfolding e0_def using M that by (rule round_exponent_le)
  show thesis
  proof (cases "e0 \<le> E")
    case True
    define m where "m = M * 2 ^ nat (E - e0)"
    note c = round_exact_case [OF M e0_def True m_def]
    show thesis
    proof (rule that [of e0 m])
      show "round_nearest_even s M E = (if 971 < e0 then Inf s else Fin s m e0)"
        by (rule c(1))
      show "- 1074 \<le> e0" by (rule e0_lo)
      show "m < 2 ^ 53" by (rule c(3))
      show "2 ^ 52 \<le> m \<or> e0 = - 1074" by (rule c(4))
      show "real m * p2 e0 \<le> real K * p2 G" if "real M * p2 E \<le> real K * p2 G" for K G
        using that by (simp only: c(2))
      show "real K * p2 G \<le> real m * p2 e0" if "real K * p2 G \<le> real M * p2 E" for K G
        using that by (simp only: c(2))
      show "\<bar>real m * p2 e0 - real M * p2 E\<bar> \<le> p2 (b - 1)" for b
        using p2_pos [of "b - 1"] by (simp add: c(2))
    qed
  next
    case False
    then have gt: "E < e0"
      by simp
    define sh where "sh = nat (e0 - E)"
    define q where "q = M div 2 ^ sh"
    define rest where "rest = M mod 2 ^ sh"
    define mr where "mr = (if 2 ^ (sh - 1) < rest \<or> (rest = 2 ^ (sh - 1) \<and> odd q) then q + 1 else q)"
    define m' where "m' = (if mr = 2 ^ 53 then 2 ^ 52 else mr)"
    define e'' where "e'' = (if mr = 2 ^ 53 then e0 + 1 else e0)"
    note c = round_inexact_case [OF M e0_def gt sh_def q_def rest_def mr_def m'_def e''_def]
    note n = round_inexact_near [OF M gt sh_def q_def rest_def mr_def]
    show thesis
    proof (rule that [of e'' m'])
      show "round_nearest_even s M E = (if 971 < e'' then Inf s else Fin s m' e'')"
        by (rule c(1))
      show "- 1074 \<le> e''" using e0_lo by (simp add: e''_def)
      show "m' < 2 ^ 53" by (rule c(3))
      show "2 ^ 52 \<le> m' \<or> e'' = - 1074" by (rule c(4))
      show "real m' * p2 e'' \<le> real K * p2 G"
        if "K \<le> 2 ^ 53" and "- 1074 \<le> G" and "real M * p2 E \<le> real K * p2 G" for K G
        unfolding c(2) using c(5) c(7) c(8) c(9) that by (rule sandwich_upper)
      show "real K * p2 G \<le> real m' * p2 e''"
        if "K \<le> 2 ^ 53" and "- 1074 \<le> G" and "real K * p2 G \<le> real M * p2 E" for K G
        unfolding c(2) using c(6) c(7) c(9) that by (rule sandwich_lower)
      show "\<bar>real m' * p2 e'' - real M * p2 E\<bar> \<le> p2 (b - 1)"
        if "- 1074 \<le> b" and "real M * p2 E < p2 (b + 53)" for b
      proof -
        from that have "e0 \<le> b"
          by (rule e0_le)
        then have "p2 (e0 - 1) \<le> p2 (b - 1)"
          by (simp add: p2_mono)
        with n show ?thesis
          unfolding c(2) by simp
      qed
    qed
  qed
qed


text \<open>No binary64 number lies strictly between a binary64 number and its successor.\<close>

lemma successor_gap:
  assumes canon: "2 ^ 52 \<le> m \<or> e = - 1074" and f: "- 1074 \<le> f" and n: "n \<le> 2 ^ 53"
    and lt: "real m * p2 e < real n * p2 f"
  shows "real (m + 1) * p2 e \<le> real n * p2 f"
proof (cases "e \<le> f")
  case True
  note g = grid_point [OF True, of n]
  from lt have "real m * p2 e < real (n * 2 ^ nat (f - e)) * p2 e"
    by (simp only: g)
  then have "m < n * 2 ^ nat (f - e)"
    by (simp only: p2_less_cancel)
  then have "m + 1 \<le> n * 2 ^ nat (f - e)"
    by simp
  then have "real (m + 1) * p2 e \<le> real (n * 2 ^ nat (f - e)) * p2 e"
    by (simp only: p2_le_cancel)
  then show ?thesis
    by (simp only: g)
next
  case False
  then have fe: "f < e"
    by simp
  with f canon have "2 ^ 52 \<le> m"
    by auto
  with fe n have "real n * p2 f \<le> real m * p2 e"
    by (rule below_grid)
  with lt show ?thesis
    by simp
qed

lemma no_overflow:
  assumes canon: "2 ^ 52 \<le> m \<or> e = - 1074" and lt: "real m * p2 e < p2 1024"
  shows "\<not> 971 < e"
proof
  assume big: "971 < e"
  with canon have "2 ^ 52 \<le> m"
    by auto
  have "p2 1024 = real (2 ^ 52) * p2 972"
    by (simp add: p2_numeral)
  also have "\<dots> \<le> real (2 ^ 52) * p2 e"
    using big p2_mono [of 972 e] by simp
  also have "\<dots> \<le> real m * p2 e"
    using \<open>2 ^ 52 \<le> m\<close> by (simp only: p2_le_cancel)
  finally show False
    using lt by simp
qed

section \<open>The arithmetic stays within binary64\<close>

lemma is_double_round: "is_double (round_nearest_even s M E)"
proof (cases "M = 0")
  case True
  then show ?thesis
    by (simp add: round_nearest_even_def)
next
  case False
  then have "0 < M"
    by simp
  then obtain m e where "round_nearest_even s M E = (if 971 < e then Inf s else Fin s m e)"
    and "- 1074 \<le> e" and "m < 2 ^ 53" and "2 ^ 52 \<le> m \<or> e = - 1074"
    by (rule round_nearest_even_cases) blast
  then show ?thesis
    by auto
qed

lemma is_double_fmul: "is_double (fmul x y)"
  by (cases x; cases y) (simp_all add: is_double_round)

lemma is_double_fadd: "is_double (fadd x y)"
  by (cases x; cases y) (simp_all add: is_double_round Let_def)

lemma is_double_literals: "is_double zero" "is_double one" "is_double eps"
  by (simp_all add: zero_def one_def eps_def)

section \<open>Values of sums and comparisons\<close>

lemma valof_nonneg_Fin: "\<not> s \<or> m = 0 \<Longrightarrow> valof (Fin s m e) = real m * p2 e"
  by (auto simp: smant_def)

lemma scaled_val:
  assumes "e0 \<le> e"
  shows "real_of_int (scaled k e e0) * p2 e0 = real_of_int k * p2 e"
proof -
  have "real_of_int (scaled k e e0) * p2 e0 = real_of_int k * (2 ^ nat (e - e0) * p2 e0)"
    by (simp add: scaled_def)
  also have "\<dots> = real_of_int k * p2 e"
    using assms by (simp only: p2_diff_nat)
  finally show ?thesis .
qed

lemma scaled_min_val:
  "real_of_int (scaled (smant s m) e (min e f)) * p2 (min e f) = valof (Fin s m e)"
  "real_of_int (scaled (smant t n) f (min e f)) * p2 (min e f) = valof (Fin t n f)"
  by (simp_all add: scaled_val)

lemma flt_Fin_valof:
  "flt (Fin s m e) (Fin t n f) \<longleftrightarrow> valof (Fin s m e) < valof (Fin t n f)"
proof -
  let ?a = "scaled (smant s m) e (min e f)" and ?b = "scaled (smant t n) f (min e f)"
  have "?a < ?b \<longleftrightarrow> real_of_int ?a * p2 (min e f) < real_of_int ?b * p2 (min e f)"
    by (simp add: p2_pos)
  then show ?thesis
    by (simp only: scaled_min_val flt.simps)
qed

lemma fle_Fin_valof:
  "fle (Fin s m e) (Fin t n f) \<longleftrightarrow> valof (Fin s m e) \<le> valof (Fin t n f)"
proof -
  let ?a = "scaled (smant s m) e (min e f)" and ?b = "scaled (smant t n) f (min e f)"
  have "?a \<le> ?b \<longleftrightarrow> real_of_int ?a * p2 (min e f) \<le> real_of_int ?b * p2 (min e f)"
    by (simp add: p2_pos)
  then show ?thesis
    by (simp only: scaled_min_val fle.simps)
qed

lemma fadd_Fin_sum:
  "real_of_int (scaled (smant s m) e (min e f) + scaled (smant t n) f (min e f)) * p2 (min e f) =
     valof (Fin s m e) + valof (Fin t n f)"
  by (simp only: of_int_add distrib_right scaled_min_val)

text \<open>The sum of two finite numbers whose exact sum is positive.\<close>

lemma fadd_Fin_pos:
  assumes "0 < valof (Fin s m e) + valof (Fin t n f)"
  obtains M E where "fadd (Fin s m e) (Fin t n f) = round_nearest_even False M E"
    and "0 < M" and "real M * p2 E = valof (Fin s m e) + valof (Fin t n f)"
proof -
  let ?k = "scaled (smant s m) e (min e f) + scaled (smant t n) f (min e f)"
  from assms have "0 < real_of_int ?k * p2 (min e f)"
    by (simp only: fadd_Fin_sum)
  then have "0 < real_of_int ?k"
    using p2_pos [of "min e f"] by (rule zero_less_mult_pos2)
  then have k: "0 < ?k"
    by (simp only: of_int_0_less_iff)
  show thesis
  proof (rule that [of "nat \<bar>?k\<bar>" "min e f"])
    show "fadd (Fin s m e) (Fin t n f) = round_nearest_even False (nat \<bar>?k\<bar>) (min e f)"
      using k by (simp add: Let_def)
    show "0 < nat \<bar>?k\<bar>"
      using k by simp
    have "real (nat \<bar>?k\<bar>) = real_of_int ?k"
      using k by simp
    then show "real (nat \<bar>?k\<bar>) * p2 (min e f) = valof (Fin s m e) + valof (Fin t n f)"
      by (simp only: fadd_Fin_sum)
  qed
qed

text \<open>Rounding a number that lies below a binary64 number stays finite and below it.\<close>

lemma round_below:
  assumes M: "0 < M" and K: "K \<le> 2 ^ 53" and G: "- 1074 \<le> G" "G \<le> 970"
    and le: "real M * p2 E \<le> real K * p2 G"
  obtains m e where "round_nearest_even s M E = Fin s m e"
    and "real m * p2 e \<le> real K * p2 G"
    and "\<And>K' G'. K' \<le> 2 ^ 53 \<Longrightarrow> - 1074 \<le> G' \<Longrightarrow> real K' * p2 G' \<le> real M * p2 E \<Longrightarrow>
           real K' * p2 G' \<le> real m * p2 e"
proof -
  from M obtain m e where
    r: "round_nearest_even s M E = (if 971 < e then Inf s else Fin s m e)"
    and canon: "2 ^ 52 \<le> m \<or> e = - 1074"
    and up: "\<And>K G. K \<le> 2 ^ 53 \<Longrightarrow> - 1074 \<le> G \<Longrightarrow> real M * p2 E \<le> real K * p2 G \<Longrightarrow>
           real m * p2 e \<le> real K * p2 G"
    and lo: "\<And>K G. K \<le> 2 ^ 53 \<Longrightarrow> - 1074 \<le> G \<Longrightarrow> real K * p2 G \<le> real M * p2 E \<Longrightarrow>
           real K * p2 G \<le> real m * p2 e"
    by (rule round_nearest_even_cases) blast
  from K G(1) le have mle: "real m * p2 e \<le> real K * p2 G"
    by (rule up)
  have "\<not> 971 < e"
  proof
    assume big: "971 < e"
    with canon have "2 ^ 52 \<le> m"
      by auto
    have "real K * p2 G \<le> real (2 ^ 53) * p2 G"
      using K by (simp only: p2_le_cancel)
    also have "\<dots> \<le> real (2 ^ 53) * p2 970"
      using G(2) p2_mono [of G 970] by simp
    also have "\<dots> < real (2 ^ 52) * p2 972"
      by (simp add: p2_numeral)
    also have "\<dots> \<le> real (2 ^ 52) * p2 e"
      using big p2_mono [of 972 e] by simp
    also have "\<dots> \<le> real m * p2 e"
      using \<open>2 ^ 52 \<le> m\<close> by (simp only: p2_le_cancel)
    finally show False
      using mle by simp
  qed
  with r have "round_nearest_even s M E = Fin s m e"
    by simp
  then show thesis
    using mle lo by (rule that)
qed

section \<open>The gap between the two tolerances\<close>

lemma valof_zero: "valof zero = 0"
  by (simp add: zero_def smant_def)

lemma valof_bound: "valof two_pow_24 = 2 ^ 24"
  by (simp add: two_pow_24_def smant_def p2_def)

lemma valof_eps: "valof eps = 4835703278458517 / 2 ^ 82"
  by (simp add: eps_def smant_def p2_def)

lemma valof_one_e_minus_8: "valof one_e_minus_8 = 6044629098073146 / 2 ^ 79"
  by (simp add: one_e_minus_8_def smant_def p2_def)

text \<open>The two literals are the binary64 numbers nearest to \<open>10^-9\<close> and \<open>10^-8\<close>.\<close>

lemma eps_nearest: "\<bar>valof eps - 1 / 10 ^ 9\<bar> \<le> p2 (- 83)"
  by (simp add: eps_def smant_def p2_def)

lemma one_e_minus_8_nearest: "\<bar>valof one_e_minus_8 - 1 / 10 ^ 8\<bar> \<le> p2 (- 80)"
  by (simp add: one_e_minus_8_def smant_def p2_def)

lemma p2_m28: "p2 (- 28) = 1 / 2 ^ 28"
  by (simp add: p2_def)

lemma fle_zero_bound_Fin:
  assumes "fle zero a" and "fle a two_pow_24"
  obtains s m e where "a = Fin s m e" and "0 \<le> valof a" and "valof a \<le> 2 ^ 24"
proof (cases a)
  case NaN
  with assms(1) show ?thesis
    by (simp add: zero_def)
next
  case (Inf s)
  with assms show ?thesis
    by (simp add: zero_def two_pow_24_def)
next
  case (Fin s m e)
  from assms(1) have "valof zero \<le> valof a"
    unfolding Fin zero_def by (simp only: fle_Fin_valof)
  moreover from assms(2) have "valof a \<le> valof two_pow_24"
    unfolding Fin two_pow_24_def by (simp only: fle_Fin_valof)
  ultimately show ?thesis
    using Fin by (simp only: valof_zero valof_bound that)
qed

lemma tolerance_gap_small:
  assumes "fle zero a" and "fle a two_pow_24"
  shows "flt (fadd a eps) (fadd a one_e_minus_8)"
proof -
  from assms obtain s m e where a: "a = Fin s m e" and v0: "0 \<le> valof a" and v1: "valof a \<le> 2 ^ 24"
    by (rule fle_zero_bound_Fin)
  define x9 where "x9 = valof a + valof eps"
  define x8 where "x8 = valof a + valof one_e_minus_8"
  have x9_pos: "0 < x9" and x9_le: "x9 < 2 ^ 24 + 1"
    using v0 v1 by (simp_all add: x9_def valof_eps)
  have gap: "x9 + 2 / 2 ^ 28 \<le> x8"
    by (simp add: x9_def x8_def valof_eps valof_one_e_minus_8)
  have x8_pos: "0 < x8"
    using x9_pos gap by simp
  obtain M9 E9 where r9: "fadd a eps = round_nearest_even False M9 E9"
    and M9: "0 < M9" and e9: "real M9 * p2 E9 = x9"
    using x9_pos unfolding a x9_def eps_def by (rule fadd_Fin_pos)
  obtain M8 E8 where r8: "fadd a one_e_minus_8 = round_nearest_even False M8 E8"
    and M8: "0 < M8" and e8: "real M8 * p2 E8 = x8"
    using x8_pos unfolding a x8_def one_e_minus_8_def by (rule fadd_Fin_pos)
  define K where "K = nat \<lceil>x9 * 2 ^ 28\<rceil>"
  have Kr: "real K = of_int \<lceil>x9 * 2 ^ 28\<rceil>"
    using x9_pos by (simp add: K_def)
  have K_lo: "x9 * 2 ^ 28 \<le> real K"
    by (simp only: Kr le_of_int_ceiling)
  have K_hi: "real K < x9 * 2 ^ 28 + 1"
    using ceiling_correct [of "x9 * 2 ^ 28"] by (simp only: Kr) simp
  have g1: "x9 \<le> real K * p2 (- 28)"
    using K_lo by (simp add: p2_m28 field_simps)
  have g2: "real (K + 1) * p2 (- 28) \<le> x8"
  proof -
    have "real (K + 1) * p2 (- 28) \<le> x9 + 2 / 2 ^ 28"
      using K_hi by (simp add: p2_m28 field_simps)
    with gap show ?thesis
      by simp
  qed
  have "real K < (2 ^ 24 + 1) * 2 ^ 28 + 1"
    using K_hi x9_le by simp
  then have "real (K + 1) \<le> real (2 ^ 53)"
    by simp
  then have K1: "K + 1 \<le> 2 ^ 53"
    by (simp only: of_nat_le_iff)
  then have K0: "K \<le> 2 ^ 53"
    by simp
  have g1': "real M9 * p2 E9 \<le> real K * p2 (- 28)"
    using g1 by (simp only: e9)
  have G: "- 1074 \<le> (- 28 :: int)" "(- 28 :: int) \<le> 970"
    by simp_all
  obtain m9 f9 where f9: "round_nearest_even False M9 E9 = Fin False m9 f9"
    and le9: "real m9 * p2 f9 \<le> real K * p2 (- 28)"
    by (rule round_below [OF M9 K0 G g1', of False]) blast
  from M8 obtain m8 f8 where
    f8: "round_nearest_even False M8 E8 = (if 971 < f8 then Inf False else Fin False m8 f8)"
    and lo8: "\<And>K G. K \<le> 2 ^ 53 \<Longrightarrow> - 1074 \<le> G \<Longrightarrow> real K * p2 G \<le> real M8 * p2 E8 \<Longrightarrow>
           real K * p2 G \<le> real m8 * p2 f8"
    by (rule round_nearest_even_cases) blast
  have g2': "real (K + 1) * p2 (- 28) \<le> real M8 * p2 E8"
    using g2 by (simp only: e8)
  from K1 G(1) g2' have ge8: "real (K + 1) * p2 (- 28) \<le> real m8 * p2 f8"
    by (rule lo8)
  have "real K * p2 (- 28) < real (K + 1) * p2 (- 28)"
    by (simp only: p2_less_cancel less_add_one)
  with le9 ge8 have lt: "real m9 * p2 f9 < real m8 * p2 f8"
    by simp
  show ?thesis
  proof (cases "971 < f8")
    case True
    then show ?thesis
      by (simp add: r9 r8 f9 f8)
  next
    case False
    from lt have "valof (Fin False m9 f9) < valof (Fin False m8 f8)"
      by (simp add: smant_def)
    then have "flt (Fin False m9 f9) (Fin False m8 f8)"
      by (simp only: flt_Fin_valof)
    with False show ?thesis
      by (simp only: r9 r8 f9 f8 if_False)
  qed
qed

section \<open>The tolerances up to and from \<open>2^27\<close>\<close>

lemma valof_two_pow_27: "valof two_pow_27 = 2 ^ 27"
  by (simp add: two_pow_27_def smant_def p2_def)

lemma is_double_Fin_val:
  assumes "is_double (Fin s m e)"
  shows "real m * p2 e < p2 1024" and "real (m + 1) * p2 e \<le> p2 (e + 53)"
proof -
  from assms have m: "m < 2 ^ 53" and e: "e \<le> 971"
    by simp_all
  from m have m1: "m + 1 \<le> 2 ^ 53"
    by simp
  then have "real (m + 1) * p2 e \<le> real (2 ^ 53) * p2 e"
    by (simp only: p2_le_cancel)
  also have "\<dots> = p2 (e + 53)"
    by (simp add: p2_add p2_numeral)
  finally show le: "real (m + 1) * p2 e \<le> p2 (e + 53)" .
  have "real m * p2 e < real (m + 1) * p2 e"
    by (simp only: p2_less_cancel less_add_one)
  also note le
  also have "p2 (e + 53) \<le> p2 1024"
    using e by (simp add: p2_mono)
  finally show "real m * p2 e < p2 1024" .
qed

text \<open>
  Adding a positive number below half the spacing at a non-negative binary64 number gives
  this number back.
\<close>

lemma fadd_absorb:
  assumes V: "is_double (Fin s m e)" and nn: "\<not> s \<or> m = 0"
    and pos: "0 < valof (Fin t n f)" and small: "valof (Fin t n f) < p2 (e - 1)"
  obtains m' e' where "fadd (Fin s m e) (Fin t n f) = Fin False m' e'"
    and "real m' * p2 e' = real m * p2 e"
proof -
  from nn have v: "valof (Fin s m e) = real m * p2 e"
    by (rule valof_nonneg_Fin)
  from V have canon: "2 ^ 52 \<le> m \<or> e = - 1074" and elo: "- 1074 \<le> e" and mle: "m \<le> 2 ^ 53"
    by auto
  define x where "x = valof (Fin s m e) + valof (Fin t n f)"
  have v0: "0 \<le> real m * p2 e"
    using p2_pos [of e] by simp
  have xpos: "0 < valof (Fin s m e) + valof (Fin t n f)"
    using v0 pos by (simp only: v)
  have x_lo: "real m * p2 e \<le> x"
    using pos by (simp add: x_def v del: valof.simps)
  have x_hi: "x + p2 (e - 1) < real (m + 1) * p2 e"
    using small p2_half [of e] by (simp add: x_def v algebra_simps del: valof.simps)
  obtain M E where r: "fadd (Fin s m e) (Fin t n f) = round_nearest_even False M E"
    and M: "0 < M" and xe: "real M * p2 E = x"
    unfolding x_def using xpos by (rule fadd_Fin_pos)
  from M obtain m' e' where
    res: "round_nearest_even False M E = (if 971 < e' then Inf False else Fin False m' e')"
    and e'lo: "- 1074 \<le> e'" and m'lt: "m' < 2 ^ 53" and canon': "2 ^ 52 \<le> m' \<or> e' = - 1074"
    and lo: "\<And>K G. K \<le> 2 ^ 53 \<Longrightarrow> - 1074 \<le> G \<Longrightarrow> real K * p2 G \<le> real M * p2 E \<Longrightarrow>
           real K * p2 G \<le> real m' * p2 e'"
    and near: "\<And>b. - 1074 \<le> b \<Longrightarrow> real M * p2 E < p2 (b + 53) \<Longrightarrow>
           \<bar>real m' * p2 e' - real M * p2 E\<bar> \<le> p2 (b - 1)"
    by (rule round_nearest_even_cases) blast
  have ge: "real m * p2 e \<le> real m' * p2 e'"
    using mle elo x_lo by (intro lo) (simp_all only: xe)
  have "x < real (m + 1) * p2 e"
    using x_hi p2_pos [of "e - 1"] by simp
  also have "\<dots> \<le> p2 (e + 53)"
    using V by (rule is_double_Fin_val(2))
  finally have "real M * p2 E < p2 (e + 53)"
    by (simp only: xe)
  with elo have "\<bar>real m' * p2 e' - real M * p2 E\<bar> \<le> p2 (e - 1)"
    by (rule near)
  then have "\<bar>real m' * p2 e' - x\<bar> \<le> p2 (e - 1)"
    by (simp only: xe)
  then have "real m' * p2 e' \<le> x + p2 (e - 1)"
    by linarith
  with x_hi have below: "real m' * p2 e' < real (m + 1) * p2 e"
    by simp
  have le: "real m' * p2 e' \<le> real m * p2 e"
  proof (rule ccontr)
    assume "\<not> real m' * p2 e' \<le> real m * p2 e"
    then have "real m * p2 e < real m' * p2 e'"
      by simp
    with canon e'lo have "real (m + 1) * p2 e \<le> real m' * p2 e'"
      using m'lt by (intro successor_gap) simp_all
    with below show False
      by simp
  qed
  with ge have eq: "real m' * p2 e' = real m * p2 e"
    by simp
  have "real m' * p2 e' < p2 1024"
    using is_double_Fin_val(1) [OF V] by (simp only: eq)
  with canon' have "\<not> 971 < e'"
    by (rule no_overflow)
  with res r have "fadd (Fin s m e) (Fin t n f) = Fin False m' e'"
    by simp
  then show thesis
    using eq by (rule that)
qed

lemma valof_eps_small: "0 < valof eps" "valof eps < p2 (- 29)"
  by (simp_all add: valof_eps p2_def)

lemma valof_1e_8_small: "0 < valof one_e_minus_8" "valof one_e_minus_8 < p2 (- 26)"
  "p2 (- 27) < valof one_e_minus_8"
  by (simp_all add: valof_one_e_minus_8 p2_def)

lemma tolerance_gap_wide:
  assumes d: "is_double a" and z: "fle zero a" and lt: "flt a two_pow_27"
  shows "flt (fadd a eps) (fadd a one_e_minus_8)"
proof -
  from z lt obtain s m e where a: "a = Fin s m e"
    by (cases a) (auto simp: zero_def two_pow_27_def)
  from z have nn: "\<not> s \<or> m = 0"
    by (simp add: a fle_zero_Fin)
  then have v: "valof a = real m * p2 e"
    unfolding a by (rule valof_nonneg_Fin)
  from lt have "valof a < valof two_pow_27"
    unfolding a two_pow_27_def by (simp only: flt_Fin_valof)
  then have v27: "real m * p2 e < 2 ^ 27"
    by (simp only: v valof_two_pow_27)
  from d have dd: "is_double (Fin s m e)"
    by (simp only: a)
  then have canon: "2 ^ 52 \<le> m \<or> e = - 1074" and mlt: "m < 2 ^ 53"
    by auto
  show ?thesis
  proof (cases "e \<le> - 29")
    case True
    have "real m * p2 e \<le> real (2 ^ 53) * p2 e"
      using mlt by (simp only: p2_le_cancel)
    also have "\<dots> \<le> real (2 ^ 53) * p2 (- 29)"
      using True p2_mono [of e "- 29"] by simp
    also have "\<dots> = valof two_pow_24"
      by (simp add: valof_bound p2_def)
    finally have "valof a \<le> valof two_pow_24"
      by (simp only: v)
    then have "fle a two_pow_24"
      unfolding a two_pow_24_def by (simp only: fle_Fin_valof)
    with z show ?thesis
      by (rule tolerance_gap_small)
  next
    case False
    then have e28: "- 28 \<le> e"
      by simp
    have "valof eps < p2 (- 29)"
      by (rule valof_eps_small)
    also have "\<dots> \<le> p2 (e - 1)"
      using e28 by (simp add: p2_mono)
    finally have small: "valof (Fin False 4835703278458517 (- 82)) < p2 (e - 1)"
      by (simp only: eps_def)
    have pos: "0 < valof (Fin False 4835703278458517 (- 82))"
      using valof_eps_small(1) by (simp only: eps_def)
    from dd nn pos small obtain m9 e9
      where r9: "fadd (Fin s m e) (Fin False 4835703278458517 (- 82)) = Fin False m9 e9"
        and v9: "real m9 * p2 e9 = real m * p2 e"
      by (rule fadd_absorb)
    define x where "x = valof (Fin s m e) + valof (Fin False 6044629098073146 (- 79))"
    have vv: "valof (Fin s m e) = real m * p2 e"
      using v by (simp only: a)
    have w: "valof (Fin False 6044629098073146 (- 79)) = valof one_e_minus_8"
      by (simp only: one_e_minus_8_def)
    have xdef: "x = real m * p2 e + valof one_e_minus_8"
      by (simp only: x_def vv w)
    have v0: "0 \<le> real m * p2 e"
      using p2_pos [of e] by simp
    have xpos: "0 < valof (Fin s m e) + valof (Fin False 6044629098073146 (- 79))"
      using v0 valof_1e_8_small(1) by (simp only: vv w)
    have x27: "x < p2 27"
    proof (cases "e \<le> - 27")
      case True
      have "real m * p2 e \<le> real (2 ^ 53) * p2 e"
        using mlt by (simp only: p2_le_cancel)
      also have "\<dots> \<le> real (2 ^ 53) * p2 (- 27)"
        using True p2_mono [of e "- 27"] by simp
      also have "\<dots> = 2 ^ 26"
        by (simp add: p2_def)
      finally have "real m * p2 e \<le> 2 ^ 26" .
      moreover have "valof one_e_minus_8 < 1"
        by (simp add: valof_one_e_minus_8)
      ultimately show ?thesis
        by (simp add: xdef p2_def)
    next
      case False
      then have e26: "- 26 \<le> e"
        by simp
      have "real m * p2 e < real (2 ^ 53) * p2 (- 26)"
        using v27 by (simp add: p2_def)
      with canon have "real (m + 1) * p2 e \<le> real (2 ^ 53) * p2 (- 26)"
        by (intro successor_gap) simp_all
      then have "real m * p2 e + p2 e \<le> p2 27"
        by (simp add: p2_def algebra_simps)
      moreover have "valof one_e_minus_8 < p2 e"
        using valof_1e_8_small(2) p2_mono [OF e26] by simp
      ultimately show ?thesis
        by (simp add: xdef)
    qed
    obtain M E where r: "fadd (Fin s m e) (Fin False 6044629098073146 (- 79)) =
        round_nearest_even False M E"
      and M: "0 < M" and xe: "real M * p2 E = x"
      unfolding x_def using xpos by (rule fadd_Fin_pos)
    from M obtain m8 e8 where
      res: "round_nearest_even False M E = (if 971 < e8 then Inf False else Fin False m8 e8)"
      and near: "\<And>b. - 1074 \<le> b \<Longrightarrow> real M * p2 E < p2 (b + 53) \<Longrightarrow>
           \<bar>real m8 * p2 e8 - real M * p2 E\<bar> \<le> p2 (b - 1)"
      by (rule round_nearest_even_cases) blast
    have "\<bar>real m8 * p2 e8 - real M * p2 E\<bar> \<le> p2 (- 26 - 1)"
      using x27 by (intro near) (simp_all add: xe)
    then have "\<bar>real m8 * p2 e8 - x\<bar> \<le> p2 (- 27)"
      by (simp add: xe)
    then have "x - p2 (- 27) \<le> real m8 * p2 e8"
      by linarith
    with valof_1e_8_small(3) have "real m * p2 e < real m8 * p2 e8"
      by (simp add: xdef)
    then have "real m9 * p2 e9 < real m8 * p2 e8"
      by (simp only: v9)
    then have "valof (Fin False m9 e9) < valof (Fin False m8 e8)"
      by (simp add: smant_def)
    then have f: "flt (Fin False m9 e9) (Fin False m8 e8)"
      by (simp only: flt_Fin_valof)
    have l: "fadd a eps = Fin False m9 e9"
      by (simp only: a eps_def r9)
    have "fadd a one_e_minus_8 = (if 971 < e8 then Inf False else Fin False m8 e8)"
      by (simp only: a one_e_minus_8_def r res)
    with f l show ?thesis
      by (cases "971 < e8") simp_all
  qed
qed

text \<open>From \<open>2^27\<close> on, both tolerances are absorbed.\<close>

lemma tolerance_absorbed:
  assumes d: "is_double a" and ge: "fle two_pow_27 a"
  shows "feq (fadd a one_e_minus_8) (fadd a eps)"
proof (cases a)
  case NaN
  with ge show ?thesis
    by (simp add: two_pow_27_def)
next
  case (Inf s)
  with ge show ?thesis
    by (simp add: two_pow_27_def feq_def eps_def one_e_minus_8_def)
next
  case a: (Fin s m e)
  from ge have "valof two_pow_27 \<le> valof a"
    unfolding a two_pow_27_def by (simp only: fle_Fin_valof)
  then have v27: "2 ^ 27 \<le> valof (Fin s m e)"
    by (simp only: valof_two_pow_27 a)
  have nn: "\<not> s \<or> m = 0"
  proof (rule ccontr)
    assume "\<not> (\<not> s \<or> m = 0)"
    then have "valof (Fin s m e) \<le> 0"
      using p2_pos [of e] by (simp add: smant_def mult_le_0_iff)
    with v27 show False
      by simp
  qed
  then have v: "valof (Fin s m e) = real m * p2 e"
    by (rule valof_nonneg_Fin)
  from d have dd: "is_double (Fin s m e)"
    by (simp only: a)
  then have mlt: "m < 2 ^ 53"
    by simp
  have e25: "- 25 \<le> e"
  proof (rule ccontr)
    assume "\<not> - 25 \<le> e"
    then have le: "e \<le> - 26"
      by simp
    have "real m * p2 e < real (2 ^ 53) * p2 e"
      using mlt by (simp only: p2_less_cancel)
    also have "\<dots> \<le> real (2 ^ 53) * p2 (- 26)"
      using le p2_mono [of e "- 26"] by simp
    also have "\<dots> = 2 ^ 27"
      by (simp add: p2_def)
    finally show False
      using v27 by (simp only: v)
  qed
  then have half: "p2 (- 26) \<le> p2 (e - 1)"
    by (simp add: p2_mono)
  have "valof eps < p2 (- 29)"
    by (rule valof_eps_small)
  also have "\<dots> \<le> p2 (- 26)"
    by (simp add: p2_mono)
  also note half
  finally have s9: "valof (Fin False 4835703278458517 (- 82)) < p2 (e - 1)"
    by (simp only: eps_def)
  have p9: "0 < valof (Fin False 4835703278458517 (- 82))"
    using valof_eps_small(1) by (simp only: eps_def)
  from valof_1e_8_small(2) half have s8: "valof (Fin False 6044629098073146 (- 79)) < p2 (e - 1)"
    by (simp only: one_e_minus_8_def)
  have p8: "0 < valof (Fin False 6044629098073146 (- 79))"
    using valof_1e_8_small(1) by (simp only: one_e_minus_8_def)
  from dd nn p9 s9 obtain m9 e9
    where r9: "fadd (Fin s m e) (Fin False 4835703278458517 (- 82)) = Fin False m9 e9"
      and v9: "real m9 * p2 e9 = real m * p2 e"
    by (rule fadd_absorb)
  from dd nn p8 s8 obtain m8 e8
    where r8: "fadd (Fin s m e) (Fin False 6044629098073146 (- 79)) = Fin False m8 e8"
      and v8: "real m8 * p2 e8 = real m * p2 e"
    by (rule fadd_absorb)
  have "valof (Fin False m8 e8) = valof (Fin False m9 e9)"
    using v8 v9 by (simp add: smant_def)
  then have "feq (Fin False m8 e8) (Fin False m9 e9)"
    unfolding feq_def by (simp only: fle_Fin_valof order_refl simp_thms)
  then show ?thesis
    by (simp only: a eps_def one_e_minus_8_def r8 r9)
qed

lemma fle_trans:
  assumes "fle x y" and "fle y z"
  shows "fle x z"
proof (cases "is_finite x \<and> is_finite y \<and> is_finite z")
  case True
  then obtain s m e t n f u k g
    where x: "x = Fin s m e" and y: "y = Fin t n f" and z: "z = Fin u k g"
    by (cases x; cases y; cases z) auto
  from assms have "valof x \<le> valof y" and "valof y \<le> valof z"
    unfolding x y z by (simp_all only: fle_Fin_valof)
  then have "valof x \<le> valof z"
    by simp
  then show ?thesis
    unfolding x z by (simp only: fle_Fin_valof)
next
  case False
  with assms show ?thesis
    by (cases x; cases y; cases z) auto
qed

section \<open>Sums without rounding\<close>

lemma on_grid_exactly:
  assumes "on_grid G x"
  shows "exactly G (units G x) x"
proof (cases x)
  case (Fin s m e)
  with assms have sg: "\<not> s \<or> m = 0" and div: "G \<le> e \<or> m mod 2 ^ nat (G - e) = 0"
    by simp_all
  from sg have v: "valof x = real m * p2 e"
    unfolding Fin by (rule valof_nonneg_Fin)
  have fin: "is_finite x"
    by (simp add: Fin)
  have "real (units G x) * p2 G = real m * p2 e"
  proof (cases "G \<le> e")
    case True
    then have u: "units G x = m * 2 ^ nat (e - G)"
      by (simp add: Fin)
    from True show ?thesis
      unfolding u by (rule grid_point [symmetric])
  next
    case False
    then have lt: "e \<le> G"
      by simp
    define d :: nat where "d = 2 ^ nat (G - e)"
    define c where "c = m div d"
    from False have u: "units G x = c"
      by (simp add: Fin c_def d_def)
    from False div have "m mod d = 0"
      by (simp add: d_def)
    with div_mult_mod_eq [of m d] have m: "m = c * d"
      by (simp add: c_def)
    have dp: "real d * p2 e = p2 G"
      using lt by (simp add: d_def p2_diff_nat)
    have "real m * p2 e = real c * (real d * p2 e)"
      by (simp add: m)
    also have "\<dots> = real c * p2 G"
      by (simp only: dp)
    finally show ?thesis
      unfolding u by (rule sym)
  qed
  with v have "valof x = real (units G x) * p2 G"
    by simp
  with fin show ?thesis
    unfolding exactly_def by (rule conjI)
next
  case NaN
  with assms show ?thesis
    by simp
next
  case (Inf s)
  with assms show ?thesis
    by simp
qed

lemma exactly_zero: "exactly G 0 zero"
  by (simp add: exactly_def zero_def smant_def)

lemma fadd_exact:
  assumes a: "exactly G U a" and p: "exactly G u p" and K: "U + u \<le> 2 ^ 53"
    and G: "- 1074 \<le> G" "G \<le> 970"
  shows "exactly G (U + u) (fadd a p)"
proof -
  from a obtain s m e where af: "a = Fin s m e"
    by (cases a) (auto simp: exactly_def)
  from p obtain t n f where pf: "p = Fin t n f"
    by (cases p) (auto simp: exactly_def)
  from a p have sum: "valof (Fin s m e) + valof (Fin t n f) = real (U + u) * p2 G"
    by (simp add: exactly_def af pf algebra_simps del: valof.simps)
  show ?thesis
  proof (cases "U + u = 0")
    case True
    let ?k = "scaled (smant s m) e (min e f) + scaled (smant t n) f (min e f)"
    from True sum have "valof (Fin s m e) + valof (Fin t n f) = 0"
      by (simp del: valof.simps)
    then have "real_of_int ?k * p2 (min e f) = 0"
      by (simp only: fadd_Fin_sum)
    then have "?k = 0"
      using p2_pos [of "min e f"] by simp
    then have "fadd a p = Fin (s \<and> t) 0 (- 1074)"
      by (simp add: af pf)
    with True show ?thesis
      by (simp add: exactly_def smant_def)
  next
    case False
    then have "0 < U + u"
      by simp
    then have "0 < real (U + u)"
      by (simp only: of_nat_0_less_iff)
    then have "0 < real (U + u) * p2 G"
      using p2_pos [of G] by (rule mult_pos_pos)
    then have pos: "0 < valof (Fin s m e) + valof (Fin t n f)"
      by (simp only: sum)
    obtain M E where r: "fadd (Fin s m e) (Fin t n f) = round_nearest_even False M E"
      and M: "0 < M" and x: "real M * p2 E = valof (Fin s m e) + valof (Fin t n f)"
      using pos by (rule fadd_Fin_pos)
    from x sum have le: "real M * p2 E \<le> real (U + u) * p2 G"
      and ge: "real (U + u) * p2 G \<le> real M * p2 E"
      by simp_all
    obtain m' e' where f: "round_nearest_even False M E = Fin False m' e'"
      and up: "real m' * p2 e' \<le> real (U + u) * p2 G"
      and lo: "\<And>K' G'. K' \<le> 2 ^ 53 \<Longrightarrow> - 1074 \<le> G' \<Longrightarrow> real K' * p2 G' \<le> real M * p2 E \<Longrightarrow>
           real K' * p2 G' \<le> real m' * p2 e'"
      by (rule round_below [OF M K G le, of False]) blast
    from K G(1) ge have "real (U + u) * p2 G \<le> real m' * p2 e'"
      by (rule lo)
    with up have eq: "real m' * p2 e' = real (U + u) * p2 G"
      by simp
    have res: "fadd a p = Fin False m' e'"
      unfolding af pf by (simp only: r f)
    have "valof (Fin False m' e') = real m' * p2 e'"
      by (simp add: smant_def)
    with eq show ?thesis
      unfolding exactly_def res by simp
  qed
qed

lemma foldl_fadd_exact:
  assumes "exactly G U a" and "list_all (on_grid G) ps"
    and "U + sum_list (map (units G) ps) \<le> 2 ^ 53" and "- 1074 \<le> G" and "G \<le> 970"
  shows "exactly G (U + sum_list (map (units G) ps)) (foldl fadd a ps)"
  using assms(1-3)
proof (induction ps arbitrary: a U)
  case Nil
  then show ?case by simp
next
  case (Cons p ps)
  from Cons.prems(2) have p: "exactly G (units G p) p" and ps: "list_all (on_grid G) ps"
    by (simp_all add: on_grid_exactly)
  from Cons.prems(3) have K: "U + units G p \<le> 2 ^ 53"
    and Ks: "(U + units G p) + sum_list (map (units G) ps) \<le> 2 ^ 53"
    by simp_all
  from Cons.prems(1) p K assms(4,5) have "exactly G (U + units G p) (fadd a p)"
    by (rule fadd_exact)
  from Cons.IH [OF this ps Ks] show ?case
    by (simp add: add.assoc)
qed

lemma exactly_feq:
  assumes "exactly G U x" and "exactly G U y"
  shows "feq x y"
proof -
  from assms(1) obtain s m e where x: "x = Fin s m e"
    by (cases x) (auto simp: exactly_def)
  from assms(2) obtain t n f where y: "y = Fin t n f"
    by (cases y) (auto simp: exactly_def)
  from assms have "valof x = valof y"
    by (simp add: exactly_def)
  then show ?thesis
    unfolding feq_def x y by (simp only: fle_Fin_valof) simp
qed

lemma flt_fle_trans:
  assumes "flt x y" and "fle y z"
  shows "flt x z"
proof (cases "is_finite x \<and> is_finite y \<and> is_finite z")
  case True
  then obtain s m e t n f u k g
    where x: "x = Fin s m e" and y: "y = Fin t n f" and z: "z = Fin u k g"
    by (cases x; cases y; cases z) auto
  from assms have "valof x < valof y" and "valof y \<le> valof z"
    unfolding x y z by (simp_all only: flt_Fin_valof fle_Fin_valof)
  then have "valof x < valof z"
    by simp
  then show ?thesis
    unfolding x z by (simp only: flt_Fin_valof)
next
  case False
  with assms show ?thesis
    by (cases x; cases y; cases z) auto
qed

section \<open>Accepted and rejected coordinates\<close>

lemma valid_not_rejected: "valid_coord c \<Longrightarrow> \<not> rejected c"
  by (simp add: valid_coord_def rejected_def r_out_of_range_def w_negative_def
      fle_not_flt fle_not_fgt)

section \<open>The loop of \<open>from_raw\<close>\<close>

lemma from_raw_loop_coords:
  "from_raw_loop s cs = Inr s' \<Longrightarrow> coords s' = coords s"
  by (induction cs arbitrary: s) (auto split: if_splits)

lemma from_raw_loop_accepts:
  "\<forall>c \<in> set cs. \<not> rejected c \<Longrightarrow>
   from_raw_loop s cs =
     Inr (s\<lparr>V := foldl (\<lambda>v c. fadd v (fmul (r c) (w c))) (V s) cs\<rparr>)"
  by (induction cs arbitrary: s)
     (auto simp: rejected_def r_out_of_range_def w_negative_def)

lemma from_raw_loop_rejects:
  "\<forall>c \<in> set pre. \<not> rejected c \<Longrightarrow> rejected c \<Longrightarrow>
   from_raw_loop s (pre @ c # post) =
     Inl (if r_out_of_range c then RiskValueOutOfRangeError else NegativeWeightError)"
  by (induction pre arbitrary: s)
     (auto simp: rejected_def r_out_of_range_def w_negative_def)

lemma from_raw_loop_is_double:
  "from_raw_loop s cs = Inr s' \<Longrightarrow> is_double (V s) \<Longrightarrow> is_double (V s')"
  by (induction cs arbitrary: s) (auto simp: is_double_fadd split: if_splits)

lemma from_raw_is_double: "from_raw rc = Inr s \<Longrightarrow> is_double (V s)"
  by (auto simp: from_raw_def is_double_literals split: if_splits
      dest!: from_raw_loop_is_double)

lemma from_raw_coords: "from_raw rc = Inr s \<Longrightarrow> coords s = rc"
  by (auto simp: from_raw_def split: if_splits dest: from_raw_loop_coords)

lemma from_raw_accepts:
  "rc \<noteq> [] \<Longrightarrow> \<forall>c \<in> set rc. \<not> rejected c \<Longrightarrow>
   from_raw rc = Inr \<lparr>coords = rc, V = weighted_sum rc\<rparr>"
  by (simp add: from_raw_def from_raw_loop_accepts weighted_sum_def)

lemma from_raw_loop_nonneg:
  "from_raw_loop s cs = Inr s' \<Longrightarrow> list_all finite_coord cs \<Longrightarrow> fle zero (V s) \<Longrightarrow>
   fle zero (V s')"
proof (induction cs arbitrary: s)
  case Nil
  then show ?case by simp
next
  case (Cons c cs)
  from Cons.prems(1) have acc: "\<not> flt (r c) zero" "\<not> flt (w c) zero"
    and rest: "from_raw_loop (s\<lparr>V := fadd (V s) (fmul (r c) (w c))\<rparr>) cs = Inr s'"
    by (auto split: if_splits)
  from Cons.prems(2) have fc: "finite_coord c" and fins: "list_all finite_coord cs"
    by simp_all
  from fc have fin: "is_finite (r c)" "is_finite (w c)"
    by (simp_all add: finite_coord_def)
  from fin acc have "fle zero (fmul (r c) (w c))"
    by (rule fle_zero_fmul)
  with Cons.prems(3) have "fle zero (fadd (V s) (fmul (r c) (w c)))"
    by (rule fle_zero_fadd)
  with Cons.IH [OF rest fins] show ?case
    by simp
qed

lemma from_raw_nonneg:
  assumes "from_raw rc = Inr s" and "list_all finite_coord rc"
  shows "fle zero (V s)"
proof -
  from assms(1) have "from_raw_loop \<lparr>coords = rc, V = zero\<rparr> rc = Inr s"
    by (simp add: from_raw_def split: if_splits)
  moreover have "fle zero (V \<lparr>coords = rc, V = zero\<rparr>)"
    by (simp add: zero_def smant_def scaled_def)
  ultimately show ?thesis
    using assms(2) by (blast intro: from_raw_loop_nonneg)
qed

section \<open>Residuals without rounding\<close>

lemma weighted_sum_products: "weighted_sum rc = foldl fadd zero (map product rc)"
  by (simp add: weighted_sum_def product_def foldl_map)

lemma weighted_sum_exact:
  assumes "list_all (\<lambda>c. on_grid G (product c)) rc"
    and "sum_list (map (\<lambda>c. units G (product c)) rc) \<le> 2 ^ 53"
    and "- 1074 \<le> G" and "G \<le> 970"
  shows "exactly G (sum_list (map (\<lambda>c. units G (product c)) rc)) (weighted_sum rc)"
proof -
  have a: "list_all (on_grid G) (map product rc)"
    using assms(1) by (simp add: list_all_iff)
  have b: "sum_list (map (units G) (map product rc)) = sum_list (map (\<lambda>c. units G (product c)) rc)"
    by (simp add: comp_def)
  have c: "0 + sum_list (map (units G) (map product rc)) \<le> 2 ^ 53"
    using assms(2) by (simp only: b add_0)
  from exactly_zero a c assms(3,4)
  have "exactly G (0 + sum_list (map (units G) (map product rc))) (foldl fadd zero (map product rc))"
    by (rule foldl_fadd_exact)
  then show ?thesis
    by (simp only: b add_0 weighted_sum_products)
qed

lemma sum_list_permuted:
  fixes f :: "'a \<Rightarrow> nat"
  assumes "mset xs = mset ys"
  shows "sum_list (map f xs) = sum_list (map f ys)"
proof -
  have "sum_list (map f xs) = sum_mset (image_mset f (mset xs))"
    by (simp only: sum_mset_sum_list [symmetric] mset_map)
  also have "\<dots> = sum_mset (image_mset f (mset ys))"
    by (simp only: assms)
  also have "\<dots> = sum_list (map f ys)"
    by (simp only: sum_mset_sum_list [symmetric] mset_map)
  finally show ?thesis .
qed

section \<open>Residuals equal to the exact sum\<close>







section \<open>The store model and the functions\<close>

lemma from_raw_loop_st_frame:
  "from_raw_loop_st st ls cs = (st', x) \<Longrightarrow> length st' = length st \<and> take ls st' = take ls st"
  by (induction cs arbitrary: st) (auto split: if_splits)

lemma from_raw_loop_st_outcome:
  "ls < length st \<Longrightarrow> from_raw_loop_st st ls cs = (st', x) \<Longrightarrow>
   from_raw_loop (st ! ls) cs = (case x of None \<Rightarrow> Inr (st' ! ls) | Some e \<Rightarrow> Inl e)"
proof (induction cs arbitrary: st)
  case Nil
  then show ?case by simp
next
  case (Cons c cs)
  show ?case
  proof (cases "flt (r c) zero \<or> fgt (r c) one \<or> flt (w c) zero")
    case True
    with Cons.prems(2) show ?thesis
      by (auto split: if_splits)
  next
    case False
    let ?v = "(st ! ls)\<lparr>V := fadd (V (st ! ls)) (fmul (r c) (w c))\<rparr>"
    from False Cons.prems(2) have "from_raw_loop_st (st[ls := ?v]) ls cs = (st', x)"
      by simp
    moreover from Cons.prems(1) have "ls < length (st[ls := ?v])"
      by simp
    ultimately have "from_raw_loop ((st[ls := ?v]) ! ls) cs =
        (case x of None \<Rightarrow> Inr (st' ! ls) | Some e \<Rightarrow> Inl e)"
      by (rule Cons.IH [rotated])
    with Cons.prems(1) False show ?thesis
      by simp
  qed
qed

lemma from_raw_st_store: "fst (from_raw_st st rc) = st"
proof (cases "rc = []")
  case True
  then show ?thesis
    by (simp add: from_raw_st_def)
next
  case False
  let ?st1 = "st @ [\<lparr>coords = rc, V = zero\<rparr>]"
  obtain st2 x where l: "from_raw_loop_st ?st1 (length st) rc = (st2, x)"
    by (cases "from_raw_loop_st ?st1 (length st) rc")
  from from_raw_loop_st_frame [OF l] have "take (length st) st2 = st"
    by simp
  with False l show ?thesis
    by (cases x) (simp_all add: from_raw_st_def Let_def)
qed

lemma from_raw_st_outcome: "snd (from_raw_st st rc) = from_raw rc"
proof (cases "rc = []")
  case True
  then show ?thesis
    by (simp add: from_raw_st_def from_raw_def)
next
  case False
  let ?st1 = "st @ [\<lparr>coords = rc, V = zero\<rparr>]"
  obtain st2 x where l: "from_raw_loop_st ?st1 (length st) rc = (st2, x)"
    by (cases "from_raw_loop_st ?st1 (length st) rc")
  have "length st < length ?st1"
    by simp
  from from_raw_loop_st_outcome [OF this l]
  have "from_raw_loop \<lparr>coords = rc, V = zero\<rparr> rc =
      (case x of None \<Rightarrow> Inr (st2 ! length st) | Some e \<Rightarrow> Inl e)"
    by simp
  with False l show ?thesis
    by (cases x) (simp_all add: from_raw_st_def from_raw_def Let_def)
qed

lemma next_st_store: "fst (next_st st this rc) = st"
proof -
  obtain st1 out where f: "from_raw_st st rc = (st1, out)"
    by (cases "from_raw_st st rc")
  with from_raw_st_store [of st rc] have "st1 = st"
    by simp
  with f show ?thesis
    by (cases out) (simp_all add: next_st_def Let_def)
qed

lemma next_st_outcome:
  assumes "this < length st"
  shows "snd (next_st st this rc) = next_state (st ! this) rc"
proof -
  obtain st1 out where f: "from_raw_st st rc = (st1, out)"
    by (cases "from_raw_st st rc")
  with from_raw_st_store [of st rc] from_raw_st_outcome [of st rc]
  have "st1 = st" and "out = from_raw rc"
    by simp_all
  with f assms show ?thesis
    by (cases "from_raw rc") (simp_all add: next_st_def next_state_def Let_def nth_append)
qed

section \<open>Construction\<close>




text \<open>
  C6. \<open>from_raw\<close> applied to the empty sequence fails with \<open>EmptyCorridorError\<close>; no other
  condition plays a part.
\<close>

theorem from_raw_empty: "from_raw [] = Inl EmptyCorridorError"
  by (simp add: from_raw_def)

text \<open>
  C5, as the code has it. \<open>from_raw\<close> tests emptiness first and then visits the
  coordinates in the order of the sequence, checking \<open>r\<close> and then \<open>w\<close> of one coordinate
  before it looks at the next. The error is that of the first coordinate that fails a
  check: \<open>RiskValueOutOfRangeError\<close> when its \<open>r\<close> is below \<open>0\<close> or above \<open>1\<close>, whatever
  its \<open>w\<close>, and \<open>NegativeWeightError\<close> otherwise, whatever the coordinates after it hold.
\<close>

theorem from_raw_first_rejected:
  assumes "\<forall>c \<in> set pre. \<not> rejected c" and "rejected c"
  shows "from_raw (pre @ c # post) =
           Inl (if r_out_of_range c then RiskValueOutOfRangeError else NegativeWeightError)"
  using assms by (simp add: from_raw_def from_raw_loop_rejects)

theorem from_raw_first_rejected_witness:
  "\<not> rejected \<lparr>r = half, w = two\<rparr> \<and>
   rejected \<lparr>r = one_and_half, w = minus_one\<rparr> \<and>
   r_out_of_range \<lparr>r = one_and_half, w = minus_one\<rparr> \<and>
   w_negative \<lparr>r = one_and_half, w = minus_one\<rparr> \<and>
   from_raw ([\<lparr>r = half, w = two\<rparr>] @ \<lparr>r = one_and_half, w = minus_one\<rparr> # []) =
     Inl RiskValueOutOfRangeError"
proof -
  have a: "\<not> rejected \<lparr>r = half, w = two\<rparr>"
    by (simp add: coord_eval double_eval one_and_half_def minus_one_def)
  have b: "rejected \<lparr>r = one_and_half, w = minus_one\<rparr>"
    by (simp add: coord_eval double_eval one_and_half_def minus_one_def)
  have c: "r_out_of_range \<lparr>r = one_and_half, w = minus_one\<rparr>"
    by (simp add: coord_eval double_eval one_and_half_def minus_one_def)
  have d: "w_negative \<lparr>r = one_and_half, w = minus_one\<rparr>"
    by (simp add: coord_eval double_eval one_and_half_def minus_one_def)
  from a have a': "\<forall>c \<in> set [\<lparr>r = half, w = two\<rparr>]. \<not> rejected c"
    by simp
  from from_raw_first_rejected [OF a' b, of "[]"] c
  have "from_raw ([\<lparr>r = half, w = two\<rparr>] @ \<lparr>r = one_and_half, w = minus_one\<rparr> # []) =
      Inl RiskValueOutOfRangeError"
    by simp
  with a b c d show ?thesis
    by blast
qed

text \<open>
  C5 as the specification states it (all \<open>r\<close> checked before any \<open>w\<close>) fails: a negative
  weight in an earlier coordinate is reported although a later coordinate has \<open>r\<close>
  outside \<open>[0,1]\<close>.
\<close>

theorem from_raw_check_order_counterexample:
  "r_out_of_range \<lparr>r = one_and_half, w = one\<rparr> \<and>
   w_negative \<lparr>r = half, w = minus_one\<rparr> \<and>
   from_raw [\<lparr>r = half, w = minus_one\<rparr>, \<lparr>r = one_and_half, w = one\<rparr>] =
     Inl NegativeWeightError"
  by (simp add: from_raw_def coord_eval double_eval one_and_half_def minus_one_def)

text \<open>
  C7, as the code has it. For every valid non-empty sequence of coordinates and every
  permutation of it, \<open>from_raw\<close> succeeds on both; and when no addition of the
  accumulation rounds, which holds when the products \<open>r * w\<close> are all multiples of one
  power of two \<open>2^G\<close> and add up to at most \<open>2^53\<close> of these units, the two residuals are
  equal numbers.
\<close>

theorem residual_order_independent_exact:
  assumes "rc \<noteq> []" and "list_all valid_coord rc" and "mset rc' = mset rc"
    and "- 1074 \<le> G" and "G \<le> 970"
    and "list_all (\<lambda>c. on_grid G (product c)) rc"
    and "sum_list (map (\<lambda>c. units G (product c)) rc) \<le> 2 ^ 53"
  shows "\<exists>s s'. from_raw rc = Inr s \<and> from_raw rc' = Inr s' \<and> feq (V s) (V s')"
proof -
  let ?U = "\<lambda>xs. sum_list (map (\<lambda>c. units G (product c)) xs)"
  from assms(3) have set: "set rc' = set rc"
    by (rule mset_eq_setD)
  with assms(1) have ne: "rc' \<noteq> []"
    by auto
  from assms(2) have acc: "\<forall>c \<in> set rc. \<not> rejected c"
    by (simp add: list_all_iff valid_not_rejected)
  then have acc': "\<forall>c \<in> set rc'. \<not> rejected c"
    by (simp only: set)
  from assms(1) acc have s: "from_raw rc = Inr \<lparr>coords = rc, V = weighted_sum rc\<rparr>"
    by (rule from_raw_accepts)
  from ne acc' have s': "from_raw rc' = Inr \<lparr>coords = rc', V = weighted_sum rc'\<rparr>"
    by (rule from_raw_accepts)
  from assms(3) have U: "?U rc' = ?U rc"
    by (rule sum_list_permuted)
  from assms(6) have grid': "list_all (\<lambda>c. on_grid G (product c)) rc'"
    by (simp add: list_all_iff set)
  from assms(7) have le': "?U rc' \<le> 2 ^ 53"
    by (simp only: U)
  from assms(6,7,4,5) have "exactly G (?U rc) (weighted_sum rc)"
    by (rule weighted_sum_exact)
  moreover from grid' le' assms(4,5) have "exactly G (?U rc') (weighted_sum rc')"
    by (rule weighted_sum_exact)
  then have "exactly G (?U rc) (weighted_sum rc')"
    by (simp only: U)
  ultimately have "feq (weighted_sum rc) (weighted_sum rc')"
    by (rule exactly_feq)
  with s s' show ?thesis
    by simp
qed

theorem residual_order_independent_exact_witness:
  "[\<lparr>r = half, w = two\<rparr>, \<lparr>r = half, w = one\<rparr>] \<noteq> [] \<and>
   list_all valid_coord [\<lparr>r = half, w = two\<rparr>, \<lparr>r = half, w = one\<rparr>] \<and>
   mset [\<lparr>r = half, w = one\<rparr>, \<lparr>r = half, w = two\<rparr>] =
     mset [\<lparr>r = half, w = two\<rparr>, \<lparr>r = half, w = one\<rparr>] \<and>
   list_all (\<lambda>c. on_grid (- 1) (product c)) [\<lparr>r = half, w = two\<rparr>, \<lparr>r = half, w = one\<rparr>] \<and>
   sum_list (map (\<lambda>c. units (- 1) (product c)) [\<lparr>r = half, w = two\<rparr>, \<lparr>r = half, w = one\<rparr>])
     \<le> 2 ^ 53 \<and>
   (\<exists>s s'. from_raw [\<lparr>r = half, w = two\<rparr>, \<lparr>r = half, w = one\<rparr>] = Inr s \<and>
            from_raw [\<lparr>r = half, w = one\<rparr>, \<lparr>r = half, w = two\<rparr>] = Inr s' \<and>
            feq (V s) (V s'))"
proof -
  have p1: "product \<lparr>r = half, w = two\<rparr> = one"
    by (simp add: product_def double_eval)
  have p2: "product \<lparr>r = half, w = one\<rparr> = half"
    by (simp add: product_def double_eval)
  have a: "[\<lparr>r = half, w = two\<rparr>, \<lparr>r = half, w = one\<rparr>] \<noteq> []"
    by simp
  have b: "list_all valid_coord [\<lparr>r = half, w = two\<rparr>, \<lparr>r = half, w = one\<rparr>]"
    by (simp add: coord_eval double_eval two_pow_53_def)
  have c: "mset [\<lparr>r = half, w = one\<rparr>, \<lparr>r = half, w = two\<rparr>] =
      mset [\<lparr>r = half, w = two\<rparr>, \<lparr>r = half, w = one\<rparr>]"
    by (simp add: add_mset_commute)
  have d: "list_all (\<lambda>c. on_grid (- 1) (product c)) [\<lparr>r = half, w = two\<rparr>, \<lparr>r = half, w = one\<rparr>]"
    by (simp add: p1 p2) (simp add: one_def half_def)
  have e: "sum_list (map (\<lambda>c. units (- 1) (product c)) [\<lparr>r = half, w = two\<rparr>, \<lparr>r = half, w = one\<rparr>])
      \<le> 2 ^ 53"
    by (simp add: p1 p2) (simp add: one_def half_def)
  have g: "- 1074 \<le> (- 1 :: int)" "(- 1 :: int) \<le> 970"
    by simp_all
  from residual_order_independent_exact [OF a b c g d e] a b c d e show ?thesis
    by blast
qed

text \<open>
  C7 as stated fails: the additions of \<^verbatim>\<open>double\<close>s round, so the order matters. The
  coordinates \<open>(1, 2^53)\<close>, \<open>(1, 1)\<close>, \<open>(1, 1)\<close> give the residual \<open>2^53\<close> in this order
  (each \<open>+ 1\<close> is a tie that rounds back to \<open>2^53\<close>) and \<open>2^53 + 2\<close> with the large term
  last.
\<close>

theorem residual_order_counterexample:
  "list_all valid_coord [\<lparr>r = one, w = two_pow_53\<rparr>, \<lparr>r = one, w = one\<rparr>, \<lparr>r = one, w = one\<rparr>] \<and>
   mset [\<lparr>r = one, w = one\<rparr>, \<lparr>r = one, w = one\<rparr>, \<lparr>r = one, w = two_pow_53\<rparr>] =
     mset [\<lparr>r = one, w = two_pow_53\<rparr>, \<lparr>r = one, w = one\<rparr>, \<lparr>r = one, w = one\<rparr>] \<and>
   from_raw [\<lparr>r = one, w = two_pow_53\<rparr>, \<lparr>r = one, w = one\<rparr>, \<lparr>r = one, w = one\<rparr>] =
     Inr \<lparr>coords = [\<lparr>r = one, w = two_pow_53\<rparr>, \<lparr>r = one, w = one\<rparr>, \<lparr>r = one, w = one\<rparr>],
          V = two_pow_53\<rparr> \<and>
   from_raw [\<lparr>r = one, w = one\<rparr>, \<lparr>r = one, w = one\<rparr>, \<lparr>r = one, w = two_pow_53\<rparr>] =
     Inr \<lparr>coords = [\<lparr>r = one, w = one\<rparr>, \<lparr>r = one, w = one\<rparr>, \<lparr>r = one, w = two_pow_53\<rparr>],
          V = two_pow_53_plus_2\<rparr> \<and>
   \<not> feq two_pow_53 two_pow_53_plus_2"
proof -
  have a: "list_all valid_coord
      [\<lparr>r = one, w = two_pow_53\<rparr>, \<lparr>r = one, w = one\<rparr>, \<lparr>r = one, w = one\<rparr>]"
    by (simp add: coord_eval double_eval two_pow_53_def)
  have b: "mset [\<lparr>r = one, w = one\<rparr>, \<lparr>r = one, w = one\<rparr>, \<lparr>r = one, w = two_pow_53\<rparr>] =
      mset [\<lparr>r = one, w = two_pow_53\<rparr>, \<lparr>r = one, w = one\<rparr>, \<lparr>r = one, w = one\<rparr>]"
    by (simp add: add_mset_commute)
  have c: "from_raw [\<lparr>r = one, w = two_pow_53\<rparr>, \<lparr>r = one, w = one\<rparr>, \<lparr>r = one, w = one\<rparr>] =
      Inr \<lparr>coords = [\<lparr>r = one, w = two_pow_53\<rparr>, \<lparr>r = one, w = one\<rparr>, \<lparr>r = one, w = one\<rparr>],
           V = two_pow_53\<rparr>"
    by (simp add: from_raw_def double_eval two_pow_53_def two_pow_53_plus_2_def)
  have d: "from_raw [\<lparr>r = one, w = one\<rparr>, \<lparr>r = one, w = one\<rparr>, \<lparr>r = one, w = two_pow_53\<rparr>] =
      Inr \<lparr>coords = [\<lparr>r = one, w = one\<rparr>, \<lparr>r = one, w = one\<rparr>, \<lparr>r = one, w = two_pow_53\<rparr>],
           V = two_pow_53_plus_2\<rparr>"
    by (simp add: from_raw_def double_eval two_pow_53_def two_pow_53_plus_2_def)
  have e: "\<not> feq two_pow_53 two_pow_53_plus_2"
    by (simp add: feq_def double_eval two_pow_53_def two_pow_53_plus_2_def)
  from a b c d e show ?thesis
    by blast
qed

section \<open>Transition\<close>

text \<open>
  C2. For every current state and every sequence that passes validation, with candidate
  \<open>n\<close>: \<open>next\<close> fails with \<open>ResidualIncreasedError\<close> if and only if the residual of the
  candidate is greater than the current residual plus \<^verbatim>\<open>1e-9\<close> (the comparison and the sum
  of \<^verbatim>\<open>double\<close>s, as the source writes them); otherwise it returns the candidate.
\<close>

theorem next_state_residual:
  assumes "from_raw rc = Inr n"
  shows "(next_state cur rc = Inl ResidualIncreasedError
            \<longleftrightarrow> fgt (V n) (fadd (V cur) eps)) \<and>
         (\<not> fgt (V n) (fadd (V cur) eps) \<longrightarrow> next_state cur rc = Inr n)"
  using assms by (simp add: next_state_def)

theorem next_state_residual_witness:
  "from_raw [\<lparr>r = nine_tenths, w = two\<rparr>] =
     Inr \<lparr>coords = [\<lparr>r = nine_tenths, w = two\<rparr>], V = Fin False 8106479329266893 (- 52)\<rparr> \<and>
   fgt (Fin False 8106479329266893 (- 52)) (fadd one eps) \<and>
   next_state \<lparr>coords = [\<lparr>r = half, w = two\<rparr>], V = one\<rparr> [\<lparr>r = nine_tenths, w = two\<rparr>] =
     Inl ResidualIncreasedError"
proof -
  have g: "fgt (Fin False 8106479329266893 (- 52)) (fadd one eps)"
    by (simp add: double_eval)
  from next_state_residual [OF from_raw_nine_tenths_two,
      of "\<lparr>coords = [\<lparr>r = half, w = two\<rparr>], V = one\<rparr>"] g from_raw_nine_tenths_two
  show ?thesis
    by simp
qed

text \<open>
  C4, as the code has it. The tolerance is inclusive: from any current state, a candidate
  whose residual equals the current residual plus \<^verbatim>\<open>1e-9\<close> is accepted. A candidate whose
  residual equals the current residual plus \<^verbatim>\<open>1e-8\<close> is rejected with
  \<open>ResidualIncreasedError\<close> whenever the current residual is a binary64 number from \<open>0\<close>
  to below \<open>2^27 = 134217728\<close>; from \<open>2^27\<close> on it is accepted, because both sums round
  to the current residual (sums and comparisons of \<^verbatim>\<open>double\<close>s throughout).
\<close>

theorem tolerance_boundary:
  assumes "from_raw rc = Inr n"
  shows "(feq (V n) (fadd (V cur) eps) \<longrightarrow> next_state cur rc = Inr n) \<and>
         (feq (V n) (fadd (V cur) one_e_minus_8) \<and> is_double (V cur) \<and>
          fle zero (V cur) \<and> flt (V cur) two_pow_27
            \<longrightarrow> next_state cur rc = Inl ResidualIncreasedError) \<and>
         (feq (V n) (fadd (V cur) one_e_minus_8) \<and> is_double (V cur) \<and> fle two_pow_27 (V cur)
            \<longrightarrow> next_state cur rc = Inr n)"
proof (intro conjI impI)
  assume "feq (V n) (fadd (V cur) eps)"
  then have "fle (V n) (fadd (V cur) eps)"
    by (simp add: feq_def)
  then have "\<not> fgt (V n) (fadd (V cur) eps)"
    by (rule fle_not_fgt)
  with assms show "next_state cur rc = Inr n"
    by (simp add: next_state_def)
next
  assume h: "feq (V n) (fadd (V cur) one_e_minus_8) \<and> is_double (V cur) \<and>
      fle zero (V cur) \<and> flt (V cur) two_pow_27"
  then have "flt (fadd (V cur) eps) (fadd (V cur) one_e_minus_8)"
    by (blast intro: tolerance_gap_wide)
  moreover from h have "fle (fadd (V cur) one_e_minus_8) (V n)"
    by (simp add: feq_def)
  ultimately have "flt (fadd (V cur) eps) (V n)"
    by (rule flt_fle_trans)
  with assms show "next_state cur rc = Inl ResidualIncreasedError"
    by (simp add: next_state_def fgt_def)
next
  assume h: "feq (V n) (fadd (V cur) one_e_minus_8) \<and> is_double (V cur) \<and> fle two_pow_27 (V cur)"
  then have "feq (fadd (V cur) one_e_minus_8) (fadd (V cur) eps)"
    by (blast intro: tolerance_absorbed)
  then have "fle (fadd (V cur) one_e_minus_8) (fadd (V cur) eps)"
    by (simp add: feq_def)
  moreover from h have "fle (V n) (fadd (V cur) one_e_minus_8)"
    by (simp add: feq_def)
  ultimately have "fle (V n) (fadd (V cur) eps)"
    by (blast intro: fle_trans)
  then have "\<not> fgt (V n) (fadd (V cur) eps)"
    by (rule fle_not_fgt)
  with assms show "next_state cur rc = Inr n"
    by (simp add: next_state_def)
qed

theorem tolerance_boundary_witness:
  "from_raw [\<lparr>r = one, w = one_plus_eps\<rparr>] =
     Inr \<lparr>coords = [\<lparr>r = one, w = one_plus_eps\<rparr>], V = one_plus_eps\<rparr> \<and>
   feq one_plus_eps (fadd one eps) \<and>
   next_state \<lparr>coords = [\<lparr>r = half, w = two\<rparr>], V = one\<rparr> [\<lparr>r = one, w = one_plus_eps\<rparr>] =
     Inr \<lparr>coords = [\<lparr>r = one, w = one_plus_eps\<rparr>], V = one_plus_eps\<rparr> \<and>
   from_raw [\<lparr>r = one, w = two_pow_26_next\<rparr>] =
     Inr \<lparr>coords = [\<lparr>r = one, w = two_pow_26_next\<rparr>], V = two_pow_26_next\<rparr> \<and>
   feq two_pow_26_next (fadd two_pow_26 one_e_minus_8) \<and> is_double two_pow_26 \<and>
   fle zero two_pow_26 \<and> flt two_pow_26 two_pow_27 \<and>
   next_state \<lparr>coords = [\<lparr>r = one, w = two_pow_26\<rparr>], V = two_pow_26\<rparr>
     [\<lparr>r = one, w = two_pow_26_next\<rparr>] = Inl ResidualIncreasedError \<and>
   from_raw [\<lparr>r = one, w = two_pow_53\<rparr>] =
     Inr \<lparr>coords = [\<lparr>r = one, w = two_pow_53\<rparr>], V = two_pow_53\<rparr> \<and>
   feq two_pow_53 (fadd two_pow_53 one_e_minus_8) \<and> is_double two_pow_53 \<and>
   fle two_pow_27 two_pow_53 \<and>
   next_state \<lparr>coords = [\<lparr>r = one, w = two_pow_53\<rparr>], V = two_pow_53\<rparr>
     [\<lparr>r = one, w = two_pow_53\<rparr>] =
     Inr \<lparr>coords = [\<lparr>r = one, w = two_pow_53\<rparr>], V = two_pow_53\<rparr>"
proof -
  let ?cur1 = "\<lparr>coords = [\<lparr>r = half, w = two\<rparr>], V = one\<rparr>"
  let ?cur2 = "\<lparr>coords = [\<lparr>r = one, w = two_pow_26\<rparr>], V = two_pow_26\<rparr>"
  let ?cur3 = "\<lparr>coords = [\<lparr>r = one, w = two_pow_53\<rparr>], V = two_pow_53\<rparr>"
  note ev = double_eval one_e_minus_8_def one_plus_eps_def two_pow_26_def two_pow_26_next_def
    two_pow_27_def two_pow_53_def
  have a1: "from_raw [\<lparr>r = one, w = one_plus_eps\<rparr>] =
      Inr \<lparr>coords = [\<lparr>r = one, w = one_plus_eps\<rparr>], V = one_plus_eps\<rparr>"
    by (simp add: from_raw_def ev)
  have b1: "feq one_plus_eps (fadd one eps)"
    by (simp add: feq_def ev)
  have a2: "from_raw [\<lparr>r = one, w = two_pow_26_next\<rparr>] =
      Inr \<lparr>coords = [\<lparr>r = one, w = two_pow_26_next\<rparr>], V = two_pow_26_next\<rparr>"
    by (simp add: from_raw_def ev)
  have b2: "feq two_pow_26_next (fadd two_pow_26 one_e_minus_8)"
    by (simp add: feq_def ev)
  have c2: "is_double two_pow_26" "fle zero two_pow_26" "flt two_pow_26 two_pow_27"
    by (simp_all add: ev)
  have a3: "from_raw [\<lparr>r = one, w = two_pow_53\<rparr>] =
      Inr \<lparr>coords = [\<lparr>r = one, w = two_pow_53\<rparr>], V = two_pow_53\<rparr>"
    by (simp add: from_raw_def ev)
  have b3: "feq two_pow_53 (fadd two_pow_53 one_e_minus_8)"
    by (simp add: feq_def ev)
  have c3: "is_double two_pow_53" "fle two_pow_27 two_pow_53"
    by (simp_all add: ev)
  from tolerance_boundary [OF a1, of ?cur1] b1
  have d1: "next_state ?cur1 [\<lparr>r = one, w = one_plus_eps\<rparr>] =
      Inr \<lparr>coords = [\<lparr>r = one, w = one_plus_eps\<rparr>], V = one_plus_eps\<rparr>"
    by simp
  from tolerance_boundary [OF a2, of ?cur2] b2 c2
  have d2: "next_state ?cur2 [\<lparr>r = one, w = two_pow_26_next\<rparr>] = Inl ResidualIncreasedError"
    by simp
  from tolerance_boundary [OF a3, of ?cur3] b3 c3
  have d3: "next_state ?cur3 [\<lparr>r = one, w = two_pow_53\<rparr>] =
      Inr \<lparr>coords = [\<lparr>r = one, w = two_pow_53\<rparr>], V = two_pow_53\<rparr>"
    by simp
  from a1 b1 d1 a2 b2 c2 d2 a3 b3 c3 d3 show ?thesis
    by blast
qed

text \<open>
  C4 as stated fails for large residuals: at the current residual \<open>2^53\<close> adding
  \<^verbatim>\<open>1e-8\<close> changes nothing, so a candidate with the residual \<open>2^53\<close> equals the current
  residual plus \<^verbatim>\<open>1e-8\<close> and is accepted.
\<close>

theorem tolerance_boundary_counterexample:
  "from_raw [\<lparr>r = one, w = two_pow_53\<rparr>] =
     Inr \<lparr>coords = [\<lparr>r = one, w = two_pow_53\<rparr>], V = two_pow_53\<rparr> \<and>
   feq two_pow_53 (fadd two_pow_53 one_e_minus_8) \<and>
   next_state \<lparr>coords = [\<lparr>r = one, w = two_pow_53\<rparr>], V = two_pow_53\<rparr>
     [\<lparr>r = one, w = two_pow_53\<rparr>] =
     Inr \<lparr>coords = [\<lparr>r = one, w = two_pow_53\<rparr>], V = two_pow_53\<rparr>"
proof -
  have a: "from_raw [\<lparr>r = one, w = two_pow_53\<rparr>] =
      Inr \<lparr>coords = [\<lparr>r = one, w = two_pow_53\<rparr>], V = two_pow_53\<rparr>"
    by (simp add: from_raw_def double_eval one_e_minus_8_def two_pow_53_def)
  have b: "feq two_pow_53 (fadd two_pow_53 one_e_minus_8)"
    by (simp add: feq_def double_eval one_e_minus_8_def two_pow_53_def)
  have c: "\<not> fgt two_pow_53 (fadd two_pow_53 eps)"
    by (simp add: double_eval one_e_minus_8_def two_pow_53_def)
  from a c have "next_state \<lparr>coords = [\<lparr>r = one, w = two_pow_53\<rparr>], V = two_pow_53\<rparr>
      [\<lparr>r = one, w = two_pow_53\<rparr>] =
      Inr \<lparr>coords = [\<lparr>r = one, w = two_pow_53\<rparr>], V = two_pow_53\<rparr>"
    by (simp add: next_state_def)
  with a b show ?thesis
    by blast
qed

text \<open>
  C9. Whenever \<open>next\<close> succeeds, the state it returns is the one \<open>from_raw\<close> builds from
  the same coordinates: it holds these coordinates and their residual. The current state
  decides only whether the candidate is accepted: any other current state that accepts
  the same coordinates returns the same state.
\<close>

theorem next_state_returns_candidate:
  assumes "next_state cur rc = Inr s"
  shows "from_raw rc = Inr s \<and> coords s = rc \<and>
         (\<forall>cur' s'. next_state cur' rc = Inr s' \<longrightarrow> s' = s)"
proof -
  from assms have c: "from_raw rc = Inr s"
    by (auto simp: next_state_def split: sum.splits if_splits)
  then have "coords s = rc"
    by (rule from_raw_coords)
  moreover have "\<forall>cur' s'. next_state cur' rc = Inr s' \<longrightarrow> s' = s"
    using c by (auto simp: next_state_def split: if_splits)
  ultimately show ?thesis
    using c by simp
qed

theorem next_state_returns_candidate_witness:
  "next_state \<lparr>coords = [\<lparr>r = half, w = two\<rparr>], V = one\<rparr> [\<lparr>r = half, w = one\<rparr>] =
     Inr \<lparr>coords = [\<lparr>r = half, w = one\<rparr>], V = half\<rparr> \<and>
   from_raw [\<lparr>r = half, w = one\<rparr>] = Inr \<lparr>coords = [\<lparr>r = half, w = one\<rparr>], V = half\<rparr>"
proof -
  have n: "next_state \<lparr>coords = [\<lparr>r = half, w = two\<rparr>], V = one\<rparr> [\<lparr>r = half, w = one\<rparr>] =
      Inr \<lparr>coords = [\<lparr>r = half, w = one\<rparr>], V = half\<rparr>"
    by (simp add: next_state_def from_raw_half_one) (simp add: double_eval)
  from next_state_returns_candidate [OF n] n show ?thesis
    by blast
qed

text \<open>
  C8. A failing call of \<open>next\<close>, whatever the error, leaves the current state as it was:
  the store the call leaves behind is the store it was called on, so no field of the
  receiver is changed and nothing of the rejected candidate is kept; all the assignments
  of the two bodies went to the locals \<^verbatim>\<open>s\<close> and \<^verbatim>\<open>n\<close>. The error is the one the function
  on values gives for the receiver.
\<close>

theorem next_st_failure_keeps_store:
  assumes "this < length st" and "next_st st this rc = (st', Inl e)"
  shows "st' = st \<and> st' ! this = st ! this \<and> next_state (st ! this) rc = Inl e"
proof -
  from assms(2) next_st_store [of st this rc] have "st' = st"
    by simp
  moreover from assms next_st_outcome [of this st rc] have "next_state (st ! this) rc = Inl e"
    by simp
  ultimately show ?thesis
    by simp
qed

theorem next_st_failure_keeps_store_witness:
  "(0 :: nat) < length [\<lparr>coords = [\<lparr>r = half, w = two\<rparr>], V = one\<rparr>] \<and>
   next_st [\<lparr>coords = [\<lparr>r = half, w = two\<rparr>], V = one\<rparr>] 0 [\<lparr>r = nine_tenths, w = two\<rparr>] =
     ([\<lparr>coords = [\<lparr>r = half, w = two\<rparr>], V = one\<rparr>], Inl ResidualIncreasedError) \<and>
   [\<lparr>coords = [\<lparr>r = half, w = two\<rparr>], V = one\<rparr>] ! 0 = \<lparr>coords = [\<lparr>r = half, w = two\<rparr>], V = one\<rparr>"
proof -
  let ?st = "[\<lparr>coords = [\<lparr>r = half, w = two\<rparr>], V = one\<rparr>]"
  have a: "(0 :: nat) < length ?st"
    by simp
  have b: "next_st ?st 0 [\<lparr>r = nine_tenths, w = two\<rparr>] = (?st, Inl ResidualIncreasedError)"
    by (simp add: next_st_def from_raw_st_def double_eval)
  from next_st_failure_keeps_store [OF a b] a b show ?thesis
    by simp
qed

section \<open>Chains of transitions\<close>

lemma next_state_accepts:
  assumes "rc \<noteq> []" and "list_all valid_coord rc"
    and "fle (weighted_sum rc) (fadd (V cur) eps)"
  shows "next_state cur rc = Inr \<lparr>coords = rc, V = weighted_sum rc\<rparr>"
proof -
  from assms(2) have "\<forall>c \<in> set rc. \<not> rejected c"
    by (simp add: list_all_iff valid_not_rejected)
  with assms(1) have "from_raw rc = Inr \<lparr>coords = rc, V = weighted_sum rc\<rparr>"
    by (rule from_raw_accepts)
  with assms(3) show ?thesis
    by (simp add: next_state_def fle_not_fgt)
qed

text \<open>
  C3. From any current state, along any finite chain of valid coordinate sequences whose
  residuals each stay within \<^verbatim>\<open>1e-9\<close> of the one before (the first of them of the
  residual of the current state), iterating \<open>next\<close> never fails, whatever the length.
\<close>

theorem run_chain_non_increasing:
  assumes "non_increasing (V cur) rcs"
  shows "\<exists>s. run_chain cur rcs = Inr s"
  using assms
proof (induction rcs arbitrary: cur)
  case Nil
  show ?case by simp
next
  case (Cons rc rcs)
  let ?n = "\<lparr>coords = rc, V = weighted_sum rc\<rparr>"
  from Cons.prems have "next_state cur rc = Inr ?n"
    by (simp add: next_state_accepts)
  moreover from Cons.prems have "non_increasing (V ?n) rcs"
    by simp
  then have "\<exists>s. run_chain ?n rcs = Inr s"
    by (rule Cons.IH)
  ultimately show ?case
    by simp
qed

theorem run_chain_non_increasing_witness:
  "non_increasing (V \<lparr>coords = [\<lparr>r = half, w = two\<rparr>], V = one\<rparr>)
     [ [\<lparr>r = half, w = one\<rparr>], [\<lparr>r = half, w = one\<rparr>] ] \<and>
   (\<exists>s. run_chain \<lparr>coords = [\<lparr>r = half, w = two\<rparr>], V = one\<rparr>
     [ [\<lparr>r = half, w = one\<rparr>], [\<lparr>r = half, w = one\<rparr>] ] = Inr s)"
proof -
  have s: "weighted_sum [\<lparr>r = half, w = one\<rparr>] = half"
    by (simp add: weighted_sum_def double_eval)
  have v: "valid_coord \<lparr>r = half, w = one\<rparr>"
    by (simp add: coord_eval double_eval)
  have l1: "fle half (fadd one eps)"
    by (simp add: double_eval)
  have l2: "fle half (fadd half eps)"
    by (simp add: double_eval)
  have a: "non_increasing (V \<lparr>coords = [\<lparr>r = half, w = two\<rparr>], V = one\<rparr>)
     [ [\<lparr>r = half, w = one\<rparr>], [\<lparr>r = half, w = one\<rparr>] ]"
    by (simp add: s v l1 l2)
  from run_chain_non_increasing [OF a] a show ?thesis
    by blast
qed


section \<open>Reachable states\<close>

lemma reachable_from_raw: "reachable s \<Longrightarrow> \<exists>rc. from_raw rc = Inr s"
  by (induction rule: reachable.induct)
     (auto simp: next_state_def split: sum.splits if_splits)

text \<open>
  C10, as the code has it. Every state produced by \<open>from_raw\<close> or by a successful \<open>next\<close>,
  along any chain of them, whose coordinates are all finite numbers has a residual that is
  at least \<open>0\<close> (it may be the positive infinity).
\<close>

theorem reachable_finite_nonneg:
  assumes "reachable s" and "list_all finite_coord (coords s)"
  shows "fle zero (V s)"
proof -
  from assms(1) obtain rc where c: "from_raw rc = Inr s"
    by (blast dest: reachable_from_raw)
  then have "coords s = rc"
    by (rule from_raw_coords)
  with assms(2) c show ?thesis
    by (blast intro: from_raw_nonneg)
qed

theorem reachable_finite_nonneg_witness:
  "reachable \<lparr>coords = [\<lparr>r = half, w = one\<rparr>], V = half\<rparr> \<and>
   list_all finite_coord (coords \<lparr>coords = [\<lparr>r = half, w = one\<rparr>], V = half\<rparr>) \<and>
   fle zero (V \<lparr>coords = [\<lparr>r = half, w = one\<rparr>], V = half\<rparr>)"
proof -
  have n: "next_state \<lparr>coords = [\<lparr>r = half, w = two\<rparr>], V = one\<rparr> [\<lparr>r = half, w = one\<rparr>] =
      Inr \<lparr>coords = [\<lparr>r = half, w = one\<rparr>], V = half\<rparr>"
    by (simp add: next_state_def from_raw_half_one) (simp add: double_eval)
  have "reachable \<lparr>coords = [\<lparr>r = half, w = two\<rparr>], V = one\<rparr>"
    using from_raw_half_two by (rule constructed)
  then have a: "reachable \<lparr>coords = [\<lparr>r = half, w = one\<rparr>], V = half\<rparr>"
    using n by (rule transitioned)
  have b: "list_all finite_coord (coords \<lparr>coords = [\<lparr>r = half, w = one\<rparr>], V = half\<rparr>)"
    by (simp add: finite_coord_def half_def one_def)
  from reachable_finite_nonneg [OF a b] a b show ?thesis
    by blast
qed


text \<open>
  C10 as stated fails: the coordinate \<open>(0.0, +\<infinity>)\<close> passes both checks, its product is a
  NaN, and so is the residual, which is not at least \<open>0\<close>.
\<close>

theorem reachable_nonneg_counterexample:
  "reachable \<lparr>coords = [\<lparr>r = zero, w = Inf False\<rparr>], V = NaN\<rparr> \<and>
   \<not> fle zero (V \<lparr>coords = [\<lparr>r = zero, w = Inf False\<rparr>], V = NaN\<rparr>)"
proof -
  have "from_raw [\<lparr>r = zero, w = Inf False\<rparr>] = Inr \<lparr>coords = [\<lparr>r = zero, w = Inf False\<rparr>], V = NaN\<rparr>"
    by (simp add: from_raw_def double_eval)
  then have "reachable \<lparr>coords = [\<lparr>r = zero, w = Inf False\<rparr>], V = NaN\<rparr>"
    by (rule constructed)
  then show ?thesis
    by (simp add: fle_zero_NaN)
qed



end
